theory Spec2Isabelle
  imports Main
begin

section \<open>The string parser of gandiva (precompiled/string\_parser.h)\<close>

text \<open>
  The input of every routine is a byte span \<open>(s, len)\<close>; it is modelled as a
  \<open>string\<close> (a list of 8-bit characters) whose length is \<open>len\<close>, so that
  \<open>s + i, len - i\<close> is \<open>drop i s\<close>. Every routine writes a status to \<open>*result\<close> and
  returns a value: the model returns the pair (value, status).
\<close>

subsection \<open>Result status and integer types\<close>

datatype ParseResult = PARSE_SUCCESS | PARSE_FAILURE | PARSE_OVERFLOW | PARSE_UNDERFLOW

text \<open>
  The template parameter \<open>T\<close> of the integer routines: the four signed types for which
  \<open>StringParseTraits<T>::max_ascii_len\<close> is specialised.
\<close>

datatype int_type = Int8 | Int16 | Int32 | Int64

fun bits :: "int_type \<Rightarrow> nat" where
  "bits Int8 = 8"
| "bits Int16 = 16"
| "bits Int32 = 32"
| "bits Int64 = 64"

fun max_ascii_len :: "int_type \<Rightarrow> nat" where
  "max_ascii_len Int8 = 3"
| "max_ascii_len Int16 = 5"
| "max_ascii_len Int32 = 10"
| "max_ascii_len Int64 = 19"

text \<open>
  Machine integers are mathematical integers with the conversions written out:
  \<open>to_unsigned T\<close> is \<open>static_cast<UnsignedT>\<close> (reduction modulo \<open>modulus T = 2 ^ bits T\<close>) and
  \<open>to_signed T\<close> is \<open>static_cast<T>\<close> (the two's complement reading).
\<close>

fun numeric_limits_max :: "int_type \<Rightarrow> int" where
  "numeric_limits_max Int8 = 127"
| "numeric_limits_max Int16 = 32767"
| "numeric_limits_max Int32 = 2147483647"
| "numeric_limits_max Int64 = 9223372036854775807"

fun numeric_limits_min :: "int_type \<Rightarrow> int" where
  "numeric_limits_min Int8 = - 128"
| "numeric_limits_min Int16 = - 32768"
| "numeric_limits_min Int32 = - 2147483648"
| "numeric_limits_min Int64 = - 9223372036854775808"

fun modulus :: "int_type \<Rightarrow> int" where
  "modulus Int8 = 256"
| "modulus Int16 = 65536"
| "modulus Int32 = 4294967296"
| "modulus Int64 = 18446744073709551616"

definition to_unsigned :: "int_type \<Rightarrow> int \<Rightarrow> int" where
  "to_unsigned T x = x mod modulus T"

definition to_signed :: "int_type \<Rightarrow> int \<Rightarrow> int" where
  "to_signed T x =
     (let u = x mod modulus T in if u > numeric_limits_max T then u - modulus T else u)"

text \<open>
  The comparison \<open>val > rhs\<close> of an \<open>UnsignedT\<close> with a signed right-hand side: for the
  8 and 16 bit types both operands are promoted to \<open>int\<close> and the comparison is the
  mathematical one; for the 32 and 64 bit types the right-hand side is converted to the
  unsigned type first.
\<close>

definition unsigned_gt :: "int_type \<Rightarrow> int \<Rightarrow> int \<Rightarrow> bool" where
  "unsigned_gt T val rhs = (if bits T < 32 then val > rhs else val > to_unsigned T rhs)"

subsection \<open>Characters and whitespace\<close>

definition code :: "char \<Rightarrow> int" where
  "code c = of_char c"

definition is_digit :: "char \<Rightarrow> bool" where
  "is_digit c = (code (CHR ''0'') \<le> code c \<and> code c \<le> code (CHR ''9''))"

definition is_lower :: "char \<Rightarrow> bool" where
  "is_lower c = (code (CHR ''a'') \<le> code c \<and> code c \<le> code (CHR ''z''))"

definition is_upper :: "char \<Rightarrow> bool" where
  "is_upper c = (code (CHR ''A'') \<le> code c \<and> code c \<le> code (CHR ''Z''))"

definition IsWhitespace :: "char \<Rightarrow> bool" where
  "IsWhitespace c = (c = CHR '' '' \<or> c = CHR 0x09 \<or> c = CHR 0x0A \<or> c = CHR 0x0B
     \<or> c = CHR 0x0C \<or> c = CHR 0x0D)"

definition IsAllWhitespace :: "string \<Rightarrow> bool" where
  "IsAllWhitespace s = list_all IsWhitespace s"

definition SkipLeadingWhitespace :: "string \<Rightarrow> nat" where
  "SkipLeadingWhitespace s = length (takeWhile IsWhitespace s)"

subsection \<open>Decimal integers\<close>

text \<open>
  \<open>StringToIntNoOverflow<UnsignedT>\<close>: the first character is taken out of the loop; the
  loop runs over the remaining characters with the accumulator \<open>val\<close>.
\<close>

fun no_overflow_loop :: "int_type \<Rightarrow> int \<Rightarrow> string \<Rightarrow> int \<times> ParseResult" where
  "no_overflow_loop T val [] = (val, PARSE_SUCCESS)"
| "no_overflow_loop T val (c # cs) =
     (if is_digit c
      then no_overflow_loop T (to_unsigned T (val * 10 + (code c - code (CHR ''0'')))) cs
      else if \<not> IsAllWhitespace (c # cs) then (0, PARSE_FAILURE)
      else (val, PARSE_SUCCESS))"

fun StringToIntNoOverflow :: "int_type \<Rightarrow> string \<Rightarrow> int \<times> ParseResult" where
  "StringToIntNoOverflow T [] = (0, PARSE_SUCCESS)"
| "StringToIntNoOverflow T (c # cs) =
     (if is_digit c then no_overflow_loop T (code c - code (CHR ''0'')) cs
      else (0, PARSE_FAILURE))"

text \<open>
  The sign switch shared by the integer routines: \<open>negative\<close>, the index \<open>i\<close> after the
  sign, and \<open>max_val\<close>.
\<close>

definition sign_negative :: "string \<Rightarrow> bool" where
  "sign_negative s = (case s of [] \<Rightarrow> False | c # cs \<Rightarrow> c = CHR ''-'')"

definition sign_len :: "string \<Rightarrow> nat" where
  "sign_len s = (case s of [] \<Rightarrow> 0 | c # cs \<Rightarrow> if c = CHR ''-'' \<or> c = CHR ''+'' then 1 else 0)"

definition sign_max_val :: "int_type \<Rightarrow> bool \<Rightarrow> int" where
  "sign_max_val T negative =
     (if negative then to_unsigned T (to_unsigned T (numeric_limits_max T) + 1)
      else to_unsigned T (numeric_limits_max T))"

text \<open>
  The checked loop of \<open>StringToIntInternal<T>(s, len, result)\<close>. \<open>at_first\<close> is the test
  \<open>i == first\<close>; the list is \<open>s + i\<close>. \<open>max_div_10\<close> and \<open>max_mod_10\<close> are the two
  constants of type \<open>T\<close> computed before the loop.
\<close>

fun int_loop ::
  "int_type \<Rightarrow> bool \<Rightarrow> int \<Rightarrow> int \<Rightarrow> int \<Rightarrow> int \<Rightarrow> bool \<Rightarrow> string \<Rightarrow> int \<times> ParseResult"
where
  "int_loop T negative max_val max_div_10 max_mod_10 val at_first [] =
     (to_signed T (if negative then - val else val), PARSE_SUCCESS)"
| "int_loop T negative max_val max_div_10 max_mod_10 val at_first (c # cs) =
     (if is_digit c then
        (let digit = to_signed T (code c - code (CHR ''0''))
         in if unsigned_gt T val (max_div_10 - (if digit > max_mod_10 then 1 else 0))
            then (to_signed T (if negative then - max_val else max_val), PARSE_OVERFLOW)
            else int_loop T negative max_val max_div_10 max_mod_10
                   (to_unsigned T (val * 10 + digit)) False cs)
      else if at_first \<or> \<not> IsAllWhitespace (c # cs) then (0, PARSE_FAILURE)
      else (to_signed T (if negative then - val else val), PARSE_SUCCESS))"

definition StringToIntInternal :: "int_type \<Rightarrow> string \<Rightarrow> int \<times> ParseResult" where
  "StringToIntInternal T s =
     (if length s \<le> 0 then (0, PARSE_FAILURE)
      else
        let negative = sign_negative s;
            max_val = sign_max_val T negative;
            i = sign_len s
        in if length s - i < max_ascii_len T
           then (let (val, res) = StringToIntNoOverflow T (drop i s)
                 in (to_signed T (if negative then - val else val), res))
           else int_loop T negative max_val
                  (to_signed T (max_val div 10)) (to_signed T (max_val mod 10))
                  0 True (drop i s))"

definition StringToInt :: "int_type \<Rightarrow> string \<Rightarrow> int \<times> ParseResult" where
  "StringToInt T s =
     (let (ans, res) = StringToIntInternal T s
      in if res = PARSE_SUCCESS then (ans, res)
         else StringToIntInternal T (drop (SkipLeadingWhitespace s) s))"

subsection \<open>Integers in a given base\<close>

text \<open>
  \<open>StringToIntInternal<T>(s, len, base, result)\<close> divides by \<open>base\<close> before its loop and
  checks the argument nowhere: with \<open>base = 0\<close> and a non-empty input the division
  \<open>max_val / base\<close> is a division by zero, which the model returns as a fault.
\<close>

datatype fault = DivisionByZero

text \<open>
  \<open>max_val / base\<close> and \<open>max_val % base\<close> with \<open>max_val\<close> of type \<open>UnsignedT\<close> and
  \<open>base\<close> of type \<open>int32_t\<close>: for the 8 and 16 bit types both are promoted to \<open>int\<close>
  and the division truncates towards zero; for the 32 and 64 bit types \<open>base\<close> is
  converted to the unsigned type and the division is unsigned.
\<close>

definition trunc_div :: "int \<Rightarrow> int \<Rightarrow> int" where
  "trunc_div a b = (if (a < 0) = (b < 0) then \<bar>a\<bar> div \<bar>b\<bar> else - (\<bar>a\<bar> div \<bar>b\<bar>))"

definition trunc_mod :: "int \<Rightarrow> int \<Rightarrow> int" where
  "trunc_mod a b = a - b * trunc_div a b"

definition unsigned_div :: "int_type \<Rightarrow> int \<Rightarrow> int \<Rightarrow> int" where
  "unsigned_div T max_val base =
     (if bits T < 32 then trunc_div max_val base else max_val div to_unsigned T base)"

definition unsigned_mod :: "int_type \<Rightarrow> int \<Rightarrow> int \<Rightarrow> int" where
  "unsigned_mod T max_val base =
     (if bits T < 32 then trunc_mod max_val base else max_val mod to_unsigned T base)"

definition is_alnum :: "char \<Rightarrow> bool" where
  "is_alnum c = (is_digit c \<or> is_lower c \<or> is_upper c)"

definition digit_value :: "char \<Rightarrow> int" where
  "digit_value c =
     (if is_digit c then code c - code (CHR ''0'')
      else if is_lower c then code c - code (CHR ''a'') + 10
      else code c - code (CHR ''A'') + 10)"

fun base_loop ::
  "int_type \<Rightarrow> int \<Rightarrow> bool \<Rightarrow> int \<Rightarrow> int \<Rightarrow> int \<Rightarrow> int \<Rightarrow> bool \<Rightarrow> string \<Rightarrow> int \<times> ParseResult"
where
  "base_loop T base negative max_val max_div_base max_mod_base val at_first [] =
     (to_signed T (if negative then - val else val), PARSE_SUCCESS)"
| "base_loop T base negative max_val max_div_base max_mod_base val at_first (c # cs) =
     (if is_alnum c then
        (let digit = to_signed T (digit_value c)
         in if digit \<ge> base
            then (to_signed T (if negative then - val else val), PARSE_SUCCESS)
            else if unsigned_gt T val (max_div_base - (if digit > max_mod_base then 1 else 0))
            then (to_signed T (if negative then - max_val else max_val), PARSE_OVERFLOW)
            else base_loop T base negative max_val max_div_base max_mod_base
                   (to_unsigned T (val * base + digit)) False cs)
      else if at_first \<or> \<not> IsAllWhitespace (c # cs) then (0, PARSE_FAILURE)
      else (to_signed T (if negative then - val else val), PARSE_SUCCESS))"

definition StringToIntInternal_base ::
  "int_type \<Rightarrow> string \<Rightarrow> int \<Rightarrow> fault + int \<times> ParseResult"
where
  "StringToIntInternal_base T s base =
     (if length s \<le> 0 then Inr (0, PARSE_FAILURE)
      else if base = 0 then Inl DivisionByZero
      else
        let negative = sign_negative s;
            max_val = sign_max_val T negative;
            i = sign_len s
        in Inr (base_loop T base negative max_val
                  (to_signed T (unsigned_div T max_val base))
                  (to_signed T (unsigned_mod T max_val base))
                  0 True (drop i s)))"

definition StringToInt_base :: "int_type \<Rightarrow> string \<Rightarrow> int \<Rightarrow> fault + int \<times> ParseResult" where
  "StringToInt_base T s base =
     (case StringToIntInternal_base T s base of
        Inl f \<Rightarrow> Inl f
      | Inr (ans, res) \<Rightarrow>
          if res = PARSE_SUCCESS then Inr (ans, res)
          else StringToIntInternal_base T (drop (SkipLeadingWhitespace s) s) base)"

subsection \<open>Decimals\<close>

text \<open>
  Modelled from the spec: \<open>DecimalUtil::GetScaleMultiplier<T>\<close> of
  \<open>gandiva/precompiled/decimal_util.h\<close>, a header that \<open>string_parser.h\<close> includes and
  that is not among the sources. The spec names the scale multipliers among the
  ``read-only precomputed per-width constants'' and uses them as powers of ten: ``scale
  the accumulated value up by \<open>10^(type_scale - scale)\<close>''. The parser calls it with an
  argument that is not negative.
\<close>

definition GetScaleMultiplier :: "int \<Rightarrow> int" where
  "GetScaleMultiplier n = 10 ^ nat n"

text \<open>
  Modelled from the spec: \<open>DecimalUtil::ScaleDownAndRound<T>\<close> of the same absent header
  \<open>decimal_util.h\<close>. The spec says: ``scale the value down by \<open>10^shift\<close> with explicit
  round-half-up or pure truncation per \<open>round\<close>''. The parser calls it on a value that
  is not negative and a positive shift.
\<close>

definition ScaleDownAndRound :: "int \<Rightarrow> int \<Rightarrow> bool \<Rightarrow> int" where
  "ScaleDownAndRound v delta_scale round =
     (if round \<and> 2 * (v mod GetScaleMultiplier delta_scale) \<ge> GetScaleMultiplier delta_scale
      then v div GetScaleMultiplier delta_scale + 1
      else v div GetScaleMultiplier delta_scale)"

text \<open>
  \<open>StringToDecimal<T>\<close> returns a \<open>DecimalValue<T>\<close>, a wrapper of one integer of the
  template type \<open>T\<close>. The wrapper is not in the sources. The model takes \<open>T\<close> to be
  \<open>int128_t\<close>, the widest type the function is written for: its \<open>DCHECK\<close> assertions
  bound \<open>value\<close> by \<open>GetScaleMultiplier<int128_t>(type_precision)\<close>, and \<open>IRDecimal128\<close> of
  \<open>ir_struct_types.h\<close> stores a \<open>gandiva::int128_t\<close>.

  The digits are accumulated only while \<open>total_digits_count < type_precision\<close>, so that
  \<open>value\<close> stays below \<open>10 ^ type_precision\<close>; so do the results of rounding and of scaling
  to \<open>type_scale\<close> (the \<open>DCHECK\<close> assertions say so). \<open>T\<close> holds these values when
  \<open>type_precision\<close> is a precision of the decimal type that \<open>T\<close> stores, at most 38 for
  \<open>int128_t\<close>, and the model computes them as mathematical integers. The one operation
  without such a bound is the multiplication of \<open>ApplyExponent\<close>: its product and the
  negation of the product are computed in \<open>T\<close>. Where the product leaves the range of
  \<open>T\<close> the C++ standard leaves the behaviour undefined; the model gives the result of the
  two's complement multiplication, the product modulo \<open>2 ^ 128\<close>.

  The \<open>DCHECK\<close> assertions of the source are checks of debug builds only and are not
  part of the model. The counters are \<open>int32_t\<close> in the source and bounded by the input
  length.
\<close>

definition int128_max :: int where
  "int128_max = 170141183460469231731687303715884105727"

definition int128_modulus :: int where
  "int128_modulus = 340282366920938463463374607431768211456"

definition to_int128 :: "int \<Rightarrow> int" where
  "to_int128 x =
     (let u = x mod int128_modulus in if u > int128_max then u - int128_modulus else u)"

text \<open>
  The variables of the scan: \<open>found_dot\<close> is an \<open>int32_t\<close> that is 0 or 1 and is added to
  \<open>digits_after_dot_count\<close>; \<open>dec_value\<close> is the source's \<open>value\<close>.
\<close>

record scan_state =
  found_value :: bool
  found_dot :: int
  digits_after_dot_count :: int
  total_digits_count :: int
  first_truncated_digit :: int
  dec_value :: int

text \<open>
  The \<open>for\<close> loop over the characters left after the sign and the leading zeros.
  It ends in one of three ways: an early \<open>return DecimalValue<T>(0)\<close> with a status
  (\<open>Inl\<close>), or the end of the input or the \<open>break\<close> after an exponent, with the state
  and the exponent (\<open>Inr\<close>). The source tests \<open>!found_exponent\<close> at the exponent marker;
  the flag is false whenever the test is reached, since the iteration that sets it
  leaves the loop.
\<close>

fun decimal_loop ::
  "int \<Rightarrow> bool \<Rightarrow> scan_state \<Rightarrow> string \<Rightarrow> (int \<times> ParseResult) + (scan_state \<times> int)"
where
  "decimal_loop type_precision round st [] = Inr (st, 0)"
| "decimal_loop type_precision round st (c # cs) =
     (if is_digit c then
        decimal_loop type_precision round
          (st\<lparr>found_value := True,
              dec_value :=
                (if total_digits_count st < type_precision
                 then dec_value st * 10 + (code c - code (CHR ''0''))
                 else dec_value st),
              first_truncated_digit :=
                (if \<not> total_digits_count st < type_precision
                    \<and> round \<and> total_digits_count st = type_precision
                 then code c - code (CHR ''0'')
                 else first_truncated_digit st),
              total_digits_count := total_digits_count st + 1,
              digits_after_dot_count := digits_after_dot_count st + found_dot st\<rparr>) cs
      else if c = CHR ''.'' \<and> found_dot st = 0 then
        decimal_loop type_precision round (st\<lparr>found_dot := 1\<rparr>) cs
      else if c = CHR ''e'' \<or> c = CHR ''E'' then
        (case StringToIntInternal Int8 cs of
           (exponent, res) \<Rightarrow>
             if res \<noteq> PARSE_SUCCESS
             then Inl (0, if res = PARSE_OVERFLOW \<and> exponent < 0
                          then PARSE_UNDERFLOW else res)
             else Inr (st, exponent))
      else Inl (0, PARSE_FAILURE))"

text \<open>
  \<open>ApplyExponent\<close> returns the new value, the precision and the scale. The argument of
  \<open>GetScaleMultiplier\<close> is between 1 and 127 here; what the absent header returns for a
  power of ten that \<open>T\<close> does not hold, above \<open>10 ^ 38\<close>, is not known, and the properties
  of the value returned are stated for arguments up to 38.
\<close>

definition ApplyExponent :: "int \<Rightarrow> int \<Rightarrow> int \<Rightarrow> int \<Rightarrow> int \<times> int \<times> int" where
  "ApplyExponent total_digits digits_after_dot exponent v =
     (if exponent > digits_after_dot
      then (to_int128 (v * GetScaleMultiplier (exponent - digits_after_dot)),
            total_digits + (exponent - digits_after_dot), 0)
      else (v,
            (if total_digits < digits_after_dot - exponent
             then digits_after_dot - exponent else total_digits),
            digits_after_dot - exponent))"

text \<open>
  The part of \<open>StringToDecimal\<close> before its loop: whitespace at both ends, the sign, the
  leading zeros, a dot and the zeros after it. It yields \<open>is_negative\<close>, the state at the
  start of the loop and the characters left.
\<close>

definition strip_sign :: "string \<Rightarrow> string" where
  "strip_sign s =
     (case s of [] \<Rightarrow> []
      | c # cs \<Rightarrow> if c = CHR ''-'' \<or> c = CHR ''+'' then cs else c # cs)"

definition is_zero :: "char \<Rightarrow> bool" where
  "is_zero c = (c = CHR ''0'')"

definition decimal_prefix :: "string \<Rightarrow> bool \<times> scan_state \<times> string" where
  "decimal_prefix s =
     (let s1 = dropWhile IsWhitespace s;
          s2 = rev (dropWhile IsWhitespace (rev s1));
          is_negative = sign_negative s2;
          s3 = strip_sign s2;
          s4 = dropWhile is_zero s3;
          zeros_before = (takeWhile is_zero s3 \<noteq> [])
      in case s4 of
           [] \<Rightarrow>
             (is_negative,
              \<lparr>found_value = zeros_before, found_dot = 0, digits_after_dot_count = 0,
               total_digits_count = 0, first_truncated_digit = 0, dec_value = 0\<rparr>, [])
         | c # cs \<Rightarrow>
             if c = CHR ''.'' then
               (is_negative,
                \<lparr>found_value = (zeros_before \<or> takeWhile is_zero cs \<noteq> []), found_dot = 1,
                 digits_after_dot_count = int (length (takeWhile is_zero cs)),
                 total_digits_count = 0, first_truncated_digit = 0, dec_value = 0\<rparr>,
                dropWhile is_zero cs)
             else
               (is_negative,
                \<lparr>found_value = zeros_before, found_dot = 0, digits_after_dot_count = 0,
                 total_digits_count = 0, first_truncated_digit = 0, dec_value = 0\<rparr>, c # cs))"

text \<open>
  The part of \<open>StringToDecimal\<close> after its loop. The last statement of the source,
  \<open>return DecimalValue<T>(is_negative ? -value : value)\<close>, is written out in each branch;
  in the \<open>Overflow\<close> branch \<open>value\<close> can be any value of \<open>T\<close> and the negation is the
  negation of \<open>T\<close>.
\<close>

definition decimal_finish ::
  "int \<Rightarrow> int \<Rightarrow> bool \<Rightarrow> bool \<Rightarrow> scan_state \<Rightarrow> int \<Rightarrow> int \<times> ParseResult"
where
  "decimal_finish type_precision type_scale round is_negative st exponent =
     (let truncated_digit_count = max (total_digits_count st - type_precision) 0
      in case ApplyExponent (total_digits_count st) (digits_after_dot_count st) exponent
                (dec_value st) of
           (v, precision, scale) \<Rightarrow>
             if precision - scale > type_precision - type_scale
             then (if is_negative then to_int128 (- v) else v, PARSE_OVERFLOW)
             else if scale > type_scale then
               (let value_scale = scale - truncated_digit_count;
                    shift = value_scale - type_scale
                in if shift > 0
                   then (let v1 = ScaleDownAndRound v shift round
                         in (if is_negative then - v1 else v1, PARSE_UNDERFLOW))
                   else (let v1 = v + (if first_truncated_digit st \<ge> 5 then 1 else 0)
                         in (if is_negative then - v1 else v1,
                             if v1 = GetScaleMultiplier type_precision
                             then PARSE_OVERFLOW else PARSE_UNDERFLOW)))
             else if \<not> found_value st \<and> found_dot st = 0
             then (if is_negative then - v else v, PARSE_FAILURE)
             else if type_scale > scale
             then (let v1 = v * GetScaleMultiplier (type_scale - scale)
                   in (if is_negative then - v1 else v1, PARSE_SUCCESS))
             else (if is_negative then - v else v, PARSE_SUCCESS))"

text \<open>
  \<open>decimal_scan\<close> is \<open>StringToDecimal\<close> up to the end of its loop: an early return, or
  \<open>is_negative\<close>, the variables of the scan and the exponent.
\<close>

definition decimal_scan ::
  "string \<Rightarrow> int \<Rightarrow> bool \<Rightarrow> (int \<times> ParseResult) + (bool \<times> scan_state \<times> int)"
where
  "decimal_scan s type_precision round =
     (case decimal_prefix s of
        (is_negative, st0, body) \<Rightarrow>
          (case decimal_loop type_precision round st0 body of
             Inl early \<Rightarrow> Inl early
           | Inr (st, exponent) \<Rightarrow> Inr (is_negative, st, exponent)))"

definition StringToDecimal :: "string \<Rightarrow> int \<Rightarrow> int \<Rightarrow> bool \<Rightarrow> int \<times> ParseResult" where
  "StringToDecimal s type_precision type_scale round =
     (case decimal_scan s type_precision round of
        Inl early \<Rightarrow> early
      | Inr (is_negative, st, exponent) \<Rightarrow>
          decimal_finish type_precision type_scale round is_negative st exponent)"

subsection \<open>Floating-point numbers\<close>

text \<open>
  \<open>StringToFloatInternal<T>\<close> accumulates in a \<open>double\<close>, whatever \<open>T\<close> is. On an input
  without a dot and without an exponent marker every value of the accumulator is an
  integer: \<open>val * 10 + s[i] - '0'\<close> is three operations of IEEE-754 binary64 arithmetic
  on integers, and each returns the exact integer result rounded to 53 significant
  bits, ties to even (the default rounding mode), or infinity when the rounded result
  needs more than 1024 bits. The model covers these inputs and the literals \<open>inf\<close>,
  \<open>infinity\<close> and \<open>nan\<close>. On an input with a dot or an exponent marker, where the code
  divides \<open>remainder\<close> by \<open>divide\<close> or calls \<open>strtod\<close>, the model returns \<open>None\<close>: these
  paths are not modelled.

  The final conversion \<open>(T)\<close> to \<open>float\<close> rounds to 24 significant bits and gives infinity
  when the rounded result needs more than 128 bits, as IEEE-754 hardware does.
\<close>

datatype float_type = Float | Double

fun significand_bits :: "float_type \<Rightarrow> nat" where
  "significand_bits Float = 24"
| "significand_bits Double = 53"

fun infinity_bits :: "float_type \<Rightarrow> nat" where
  "infinity_bits Float = 128"
| "infinity_bits Double = 1024"

function bit_length :: "int \<Rightarrow> nat" where
  "bit_length n = (if n \<le> 0 then 0 else Suc (bit_length (n div 2)))"
  by pat_completeness auto
termination
  by (relation "measure nat") auto

declare bit_length.simps [simp del]

definition round_nearest_even :: "nat \<Rightarrow> int \<Rightarrow> int" where
  "round_nearest_even p n =
     (if bit_length n \<le> p then n
      else
        let d = 2 ^ (bit_length n - p);
            q = n div d;
            r = n mod d
        in (if 2 * r > d \<or> (2 * r = d \<and> odd q) then q + 1 else q) * d)"

text \<open>
  A floating-point value that holds an integer, an infinity or a NaN; the flag of the
  last two is the sign bit.
\<close>

datatype fp_value = Finite int | Infinity bool | NaN bool

definition round_to :: "float_type \<Rightarrow> int \<Rightarrow> fp_value" where
  "round_to T x =
     (let r = round_nearest_even (significand_bits T) \<bar>x\<bar>
      in if bit_length r > infinity_bits T then Infinity (x < 0)
         else Finite (if x < 0 then - r else r))"

definition double_mul :: "fp_value \<Rightarrow> int \<Rightarrow> fp_value" where
  "double_mul v k = (case v of Finite n \<Rightarrow> round_to Double (n * k) | _ \<Rightarrow> v)"

definition double_add :: "fp_value \<Rightarrow> int \<Rightarrow> fp_value" where
  "double_add v k = (case v of Finite n \<Rightarrow> round_to Double (n + k) | _ \<Rightarrow> v)"

definition negate :: "fp_value \<Rightarrow> fp_value" where
  "negate v =
     (case v of Finite n \<Rightarrow> Finite (- n) | Infinity b \<Rightarrow> Infinity (\<not> b) | NaN b \<Rightarrow> NaN (\<not> b))"

definition narrow :: "float_type \<Rightarrow> fp_value \<Rightarrow> fp_value" where
  "narrow T v = (case v of Finite n \<Rightarrow> round_to T n | _ \<Rightarrow> v)"

text \<open>\<open>strncasecmp\<close> against a lower-case word, in the C locale.\<close>

definition lower :: "char \<Rightarrow> char" where
  "lower c = (if is_upper c then char_of (code c + 32) else c)"

definition IsInfinity :: "string \<Rightarrow> bool" where
  "IsInfinity s =
     (length s \<ge> 3 \<and> map lower (take 3 s) = ''inf''
      \<and> IsAllWhitespace
            (drop (if length s \<ge> 8 \<and> map lower (take 5 (drop 3 s)) = ''inity''
                   then 8 else 3) s))"

definition IsNaN :: "string \<Rightarrow> bool" where
  "IsNaN s = (length s \<ge> 3 \<and> map lower (take 3 s) = ''nan'' \<and> IsAllWhitespace (drop 3 s))"

text \<open>
  The loop of \<open>StringToFloatInternal\<close> before the first dot (\<open>decimal\<close> is false). It ends
  with an early \<open>return 0\<close> and \<open>PARSE_FAILURE\<close>, or at the end of the input or a
  \<open>break\<close> with the accumulator, or at a character whose handling is not modelled.
\<close>

datatype float_scan = ScanFailure | ScanDone fp_value | ScanNotModelled

fun float_loop :: "fp_value \<Rightarrow> bool \<Rightarrow> string \<Rightarrow> float_scan" where
  "float_loop val at_first [] = ScanDone val"
| "float_loop val at_first (c # cs) =
     (if is_digit c then
        float_loop (double_add (double_add (double_mul val 10) (code c)) (- code (CHR ''0'')))
          False cs
      else if c = CHR ''.'' then ScanNotModelled
      else if c = CHR ''e'' \<or> c = CHR ''E'' then ScanNotModelled
      else if at_first \<or> \<not> IsAllWhitespace (c # cs) then ScanFailure
      else ScanDone val)"

text \<open>
  After the loop \<open>val += remainder / divide\<close> adds \<open>0 / 1\<close> and leaves \<open>val\<close> as it is.
  The status is \<open>PARSE_OVERFLOW\<close> when \<open>val == std::numeric_limits<T>::infinity()\<close>,
  a comparison of the \<open>double\<close> with the positive infinity, and the value returned is
  \<open>(T)(negative ? -val : val)\<close>.
\<close>

definition StringToFloatInternal ::
  "float_type \<Rightarrow> string \<Rightarrow> (fp_value \<times> ParseResult) option"
where
  "StringToFloatInternal T s =
     (if length s \<le> 0 then Some (Finite 0, PARSE_FAILURE)
      else
        let negative = sign_negative s;
            i = sign_len s
        in if IsInfinity (drop i s) then Some (Infinity negative, PARSE_SUCCESS)
           else if IsNaN (drop i s) then Some (NaN negative, PARSE_SUCCESS)
           else
             (case float_loop (Finite 0) True (drop i s) of
                ScanNotModelled \<Rightarrow> None
              | ScanFailure \<Rightarrow> Some (Finite 0, PARSE_FAILURE)
              | ScanDone val \<Rightarrow>
                  Some (narrow T (if negative then negate val else val),
                        if val = Infinity False then PARSE_OVERFLOW else PARSE_SUCCESS)))"

definition StringToFloat :: "float_type \<Rightarrow> string \<Rightarrow> (fp_value \<times> ParseResult) option" where
  "StringToFloat T s =
     (case StringToFloatInternal T s of
        None \<Rightarrow> None
      | Some (ans, res) \<Rightarrow>
          if res = PARSE_SUCCESS then Some (ans, res)
          else StringToFloatInternal T (drop (SkipLeadingWhitespace s) s))"

subsection \<open>Notions used to state the properties\<close>

text \<open>
  An optional sign; a character that is a digit of the given base; and the number a
  string of digits denotes in a base, starting from an accumulator \<open>v\<close>.
\<close>

definition sign_prefix :: "string \<Rightarrow> bool" where
  "sign_prefix sg = (sg = [] \<or> sg = ''+'' \<or> sg = ''-'')"

definition valid_digit :: "int \<Rightarrow> char \<Rightarrow> bool" where
  "valid_digit base c = (is_alnum c \<and> digit_value c < base)"

definition accumulate :: "int \<Rightarrow> int \<Rightarrow> string \<Rightarrow> int" where
  "accumulate base v ds = foldl (\<lambda>v d. v * base + digit_value d) v ds"

text \<open>A character that the scan of a decimal accepts before an exponent marker.\<close>

definition digit_or_dot :: "char \<Rightarrow> bool" where
  "digit_or_dot c = (is_digit c \<or> c = CHR ''.'')"

text \<open>
  The canonical textual rendering of a raw value \<open>v\<close> at a scale, in the words of the
  spec ``formatted with exactly \<open>scale\<close> fractional digits'': a minus sign when \<open>v\<close> is
  negative, the decimal digits of the integer part of \<open>\<bar>v\<bar> / 10 ^ scale\<close> (a single \<open>0\<close>
  when it is zero) and, when the scale is positive, a dot and the fractional part in
  exactly \<open>scale\<close> digits.
\<close>

definition digit_char :: "nat \<Rightarrow> char" where
  "digit_char d = char_of (48 + int d)"

fun fixed_digits :: "nat \<Rightarrow> nat \<Rightarrow> string" where
  "fixed_digits 0 n = []"
| "fixed_digits (Suc k) n = fixed_digits k (n div 10) @ [digit_char (n mod 10)]"

fun nat_digits :: "nat \<Rightarrow> string" where
  "nat_digits n =
     (if n < 10 then [digit_char n] else nat_digits (n div 10) @ [digit_char (n mod 10)])"

declare nat_digits.simps [simp del]

definition canonical_rendering :: "int \<Rightarrow> int \<Rightarrow> string" where
  "canonical_rendering v scale =
     (if v < 0 then ''-'' else [])
     @ nat_digits (nat (\<bar>v\<bar> div 10 ^ nat scale))
     @ (if scale > 0 then CHR ''.'' # fixed_digits (nat scale) (nat (\<bar>v\<bar> mod 10 ^ nat scale))
        else [])"

section \<open>Properties\<close>

subsection \<open>Conversions of values in range\<close>

lemma modulus_max: "modulus T = 2 * numeric_limits_max T + 2"
  by (cases T) simp_all

lemma max_ge_127: "127 \<le> numeric_limits_max T"
  by (cases T) simp_all

lemma min_max: "numeric_limits_min T = - numeric_limits_max T - 1"
  by (cases T) simp_all

lemma to_unsigned_id: "0 \<le> x \<Longrightarrow> x < modulus T \<Longrightarrow> to_unsigned T x = x"
  by (simp add: to_unsigned_def)

lemma to_signed_id: "0 \<le> x \<Longrightarrow> x \<le> numeric_limits_max T \<Longrightarrow> to_signed T x = x"
  by (simp add: to_signed_def Let_def modulus_max)

lemma to_signed_neg:
  assumes "0 < x" and "x \<le> numeric_limits_max T + 1"
  shows "to_signed T (- x) = - x"
proof -
  have "(- x) mod modulus T = modulus T - x"
    using assms by (simp add: modulus_max zmod_zminus1_eq_if)
  then show ?thesis using assms by (simp add: to_signed_def Let_def modulus_max)
qed

lemma to_signed_zero: "to_signed T 0 = 0"
  using max_ge_127 [of T] by (simp add: to_signed_id)

lemma sign_max_val_eq:
  "sign_max_val T negative =
     (if negative then numeric_limits_max T + 1 else numeric_limits_max T)"
  using max_ge_127 [of T] by (simp add: sign_max_val_def to_unsigned_id modulus_max)

lemma trunc_div_pos: "0 \<le> a \<Longrightarrow> 0 < b \<Longrightarrow> trunc_div a b = a div b"
  by (simp add: trunc_div_def)

lemma trunc_mod_pos: "0 \<le> a \<Longrightarrow> 0 < b \<Longrightarrow> trunc_mod a b = a mod b"
  by (simp add: trunc_mod_def trunc_div_pos minus_mult_div_eq_mod)

subsection \<open>Boundary literals of the integer parser\<close>

text \<open>
  Claim C1. For each of the four signed widths, \<open>parse_int\<close> (the public
  \<open>StringToInt<T>\<close>) of the decimal literal of the minimum and of the maximum value of the
  width returns \<open>Success\<close> with that value, and of the literal one below the minimum
  (one above the maximum) returns \<open>Overflow\<close> with the minimum (the maximum) of the width.
\<close>

theorem parse_int_boundary_literals:
  "StringToInt Int8 ''-128'' = (- 128, PARSE_SUCCESS)
   \<and> StringToInt Int8 ''127'' = (127, PARSE_SUCCESS)
   \<and> StringToInt Int8 ''-129'' = (- 128, PARSE_OVERFLOW)
   \<and> StringToInt Int8 ''128'' = (127, PARSE_OVERFLOW)
   \<and> StringToInt Int16 ''-32768'' = (- 32768, PARSE_SUCCESS)
   \<and> StringToInt Int16 ''32767'' = (32767, PARSE_SUCCESS)
   \<and> StringToInt Int16 ''-32769'' = (- 32768, PARSE_OVERFLOW)
   \<and> StringToInt Int16 ''32768'' = (32767, PARSE_OVERFLOW)
   \<and> StringToInt Int32 ''-2147483648'' = (- 2147483648, PARSE_SUCCESS)
   \<and> StringToInt Int32 ''2147483647'' = (2147483647, PARSE_SUCCESS)
   \<and> StringToInt Int32 ''-2147483649'' = (- 2147483648, PARSE_OVERFLOW)
   \<and> StringToInt Int32 ''2147483648'' = (2147483647, PARSE_OVERFLOW)
   \<and> StringToInt Int64 ''-9223372036854775808'' = (- 9223372036854775808, PARSE_SUCCESS)
   \<and> StringToInt Int64 ''9223372036854775807'' = (9223372036854775807, PARSE_SUCCESS)
   \<and> StringToInt Int64 ''-9223372036854775809'' = (- 9223372036854775808, PARSE_OVERFLOW)
   \<and> StringToInt Int64 ''9223372036854775808'' = (9223372036854775807, PARSE_OVERFLOW)"
  by code_simp

subsection \<open>Rounding and truncation of excess fractional digits\<close>

text \<open>
  Claim C2. \<open>parse_decimal\<close> of \<open>123.456\<close> with precision 6 and scale 2 is an
  \<open>Underflow\<close> in both rounding modes; the raw value is 12346 with rounding and 12345
  without.
\<close>

theorem parse_decimal_123_456:
  "StringToDecimal ''123.456'' 6 2 True = (12346, PARSE_UNDERFLOW)
   \<and> StringToDecimal ''123.456'' 6 2 False = (12345, PARSE_UNDERFLOW)"
  by code_simp

subsection \<open>An input that is only a sign\<close>

text \<open>
  Claim C10, as amended. For every width, \<open>parse_int\<close> of the one-byte input \<open>+\<close> or
  \<open>-\<close> returns \<open>Success\<close> with value 0, and so does \<open>parse_int_base\<close> with every base
  other than 0: after the sign nothing is left, which the path without overflow checks
  and the loop of the base parser both take as a parse of zero. (With base 0 the base
  parser divides by zero before its loop.)
\<close>

theorem sign_only_parses_as_zero:
  "base \<noteq> 0 \<Longrightarrow>
     StringToInt T ''+'' = (0, PARSE_SUCCESS) \<and> StringToInt T ''-'' = (0, PARSE_SUCCESS)
     \<and> StringToInt_base T ''+'' base = Inr (0, PARSE_SUCCESS)
     \<and> StringToInt_base T ''-'' base = Inr (0, PARSE_SUCCESS)"
  by (cases T) (simp_all add: StringToInt_def StringToIntInternal_def StringToInt_base_def
      StringToIntInternal_base_def sign_negative_def sign_len_def to_signed_zero)

theorem sign_only_parses_as_zero_witness:
  "(10 :: int) \<noteq> 0 \<and> StringToInt Int32 ''+'' = (0, PARSE_SUCCESS)
     \<and> StringToInt Int32 ''-'' = (0, PARSE_SUCCESS)
     \<and> StringToInt_base Int32 ''+'' 10 = Inr (0, PARSE_SUCCESS)
     \<and> StringToInt_base Int32 ''-'' 10 = Inr (0, PARSE_SUCCESS)"
  using sign_only_parses_as_zero [of 10 Int32] by simp

text \<open>The claim as stated, with any base, fails at base 0.\<close>

theorem sign_only_base_zero_counterexample:
  "StringToInt_base Int32 ''+'' 0 = Inl DivisionByZero
   \<and> StringToInt_base Int32 ''+'' 0 \<noteq> Inr (0, PARSE_SUCCESS)"
  by (simp add: StringToInt_base_def StringToIntInternal_base_def)

subsection \<open>The loop of the base parser\<close>

lemma base_loop_alnum_status:
  "list_all is_alnum ds \<Longrightarrow>
   snd (base_loop T base negative max_val max_div max_mod val at_first ds) = PARSE_SUCCESS
   \<or> snd (base_loop T base negative max_val max_div max_mod val at_first ds) = PARSE_OVERFLOW"
  by (induction ds arbitrary: val at_first) (auto simp: Let_def)

lemma alnum_not_sign: "is_alnum c \<Longrightarrow> c \<noteq> CHR ''-'' \<and> c \<noteq> CHR ''+''"
  by (auto simp: is_alnum_def is_digit_def is_lower_def is_upper_def code_def)

lemma alnum_not_ws: "is_alnum c \<Longrightarrow> \<not> IsWhitespace c"
  by (auto simp: is_alnum_def is_digit_def is_lower_def is_upper_def code_def IsWhitespace_def)

lemma drop_sign_len:
  "sign_prefix sg \<Longrightarrow> list_all is_alnum ds \<Longrightarrow> drop (sign_len (sg @ ds)) (sg @ ds) = ds"
  by (cases ds) (auto simp: sign_prefix_def sign_len_def dest: alnum_not_sign)

lemma skip_ws_sign:
  "sign_prefix sg \<Longrightarrow> list_all is_alnum ds \<Longrightarrow> SkipLeadingWhitespace (sg @ ds) = 0"
  by (cases ds) (auto simp: sign_prefix_def SkipLeadingWhitespace_def IsWhitespace_def dest: alnum_not_ws)

lemma Internal_base_unfold:
  "s \<noteq> [] \<Longrightarrow> base \<noteq> 0 \<Longrightarrow>
   StringToIntInternal_base T s base =
     Inr (base_loop T base (sign_negative s) (sign_max_val T (sign_negative s))
            (to_signed T (unsigned_div T (sign_max_val T (sign_negative s)) base))
            (to_signed T (unsigned_mod T (sign_max_val T (sign_negative s)) base))
            0 True (drop (sign_len s) s))"
  by (simp add: StringToIntInternal_base_def Let_def)

lemma StringToInt_base_no_retry:
  "SkipLeadingWhitespace s = 0 \<Longrightarrow> StringToInt_base T s base = StringToIntInternal_base T s base"
  by (auto simp: StringToInt_base_def split: sum.splits)

lemma digit_value_range: "is_alnum c \<Longrightarrow> 0 \<le> digit_value c \<and> digit_value c \<le> 35"
  by (auto simp: is_alnum_def digit_value_def is_digit_def is_lower_def is_upper_def code_def)

lemma accumulate_mono:
  "0 \<le> v \<Longrightarrow> 1 \<le> base \<Longrightarrow> list_all is_alnum ds \<Longrightarrow> v \<le> accumulate base v ds"
proof (induction ds arbitrary: v)
  case Nil
  then show ?case by (simp add: accumulate_def)
next
  case (Cons d ds)
  have dv: "0 \<le> digit_value d" using Cons.prems digit_value_range by simp
  have "v * 1 \<le> v * base" using Cons.prems by (intro mult_left_mono) auto
  then have "v \<le> v * base + digit_value d" using dv by simp
  moreover have "v * base + digit_value d \<le> accumulate base (v * base + digit_value d) ds"
    using Cons.prems dv by (intro Cons.IH) auto
  ultimately show ?case by (simp add: accumulate_def)
qed

lemma overflow_check:
  fixes v :: int
  assumes "0 < base" and "0 \<le> d" and "d < base" and "0 \<le> v" and "0 \<le> m"
  shows "(v > m div base - (if d > m mod base then 1 else 0)) = (v * base + d > m)"
proof -
  define q where "q = m div base"
  define r where "r = m mod base"
  have m: "m = q * base + r" and r: "0 \<le> r" "r < base"
    using assms by (simp_all add: q_def r_def)
  show ?thesis
  proof (cases "d > r")
    case True
    have "(v > q - 1) = (v * base + d > q * base + r)"
    proof
      assume "v > q - 1"
      then have "q * base \<le> v * base" using assms by (intro mult_right_mono) auto
      then show "v * base + d > q * base + r" using True by linarith
    next
      assume a: "v * base + d > q * base + r"
      show "v > q - 1"
      proof (rule ccontr)
        assume "\<not> v > q - 1"
        then have "v + 1 \<le> q" by simp
        then have "(v + 1) * base \<le> q * base" using assms by (intro mult_right_mono) auto
        then show False using a assms r by (simp add: algebra_simps)
      qed
    qed
    then have "(v > q - 1) = (v * base + d > m)" using m by simp
    then show ?thesis using True unfolding q_def r_def by simp
  next
    case False
    have "(v > q) = (v * base + d > q * base + r)"
    proof
      assume "v > q"
      then have "q + 1 \<le> v" by simp
      then have "(q + 1) * base \<le> v * base" using assms by (intro mult_right_mono) auto
      then show "v * base + d > q * base + r" using assms r by (simp add: algebra_simps)
    next
      assume a: "v * base + d > q * base + r"
      show "v > q"
      proof (rule ccontr)
        assume "\<not> v > q"
        then have "v * base \<le> q * base" using assms by (intro mult_right_mono) auto
        then show False using a False by linarith
      qed
    qed
    then have "(v > q) = (v * base + d > m)" using m by simp
    then show ?thesis using False unfolding q_def r_def by simp
  qed
qed


lemma max_div_bounds:
  assumes "2 \<le> base" and "base \<le> 36"
    and "m = numeric_limits_max T \<or> m = numeric_limits_max T + 1"
  shows "3 \<le> m div base" and "m div base \<le> numeric_limits_max T"
    and "0 \<le> m mod base" and "m mod base \<le> numeric_limits_max T"
proof -
  have m: "127 \<le> m" "m \<le> numeric_limits_max T + 1" using assms max_ge_127 [of T] by auto
  have "127 div base \<le> m div base" using m assms by (intro zdiv_mono1) auto
  moreover have "127 div 36 \<le> (127::int) div base" using assms by (intro zdiv_mono2) auto
  ultimately show "3 \<le> m div base" by simp
  have "m div base \<le> m div 2" using m assms by (intro zdiv_mono2) auto
  then show "m div base \<le> numeric_limits_max T" using m by linarith
  show "0 \<le> m mod base" using assms by simp
  have "m mod base < base" using assms by simp
  then show "m mod base \<le> numeric_limits_max T" using assms max_ge_127 [of T] by linarith
qed

lemma unsigned_gt_plain:
  "0 \<le> rhs \<Longrightarrow> rhs \<le> numeric_limits_max T \<Longrightarrow> unsigned_gt T val rhs = (val > rhs)"
  by (simp add: unsigned_gt_def to_unsigned_id modulus_max)

lemma unsigned_div_plain:
  "2 \<le> base \<Longrightarrow> base \<le> 36 \<Longrightarrow> 0 \<le> m \<Longrightarrow> unsigned_div T m base = m div base"
  using max_ge_127 [of T] by (simp add: unsigned_div_def trunc_div_pos to_unsigned_id modulus_max)

lemma unsigned_mod_plain:
  "2 \<le> base \<Longrightarrow> base \<le> 36 \<Longrightarrow> 0 \<le> m \<Longrightarrow> unsigned_mod T m base = m mod base"
  using max_ge_127 [of T] by (simp add: unsigned_mod_def trunc_mod_pos to_unsigned_id modulus_max)


lemma base_loop_valid_digits:
  assumes b: "2 \<le> base" "base \<le> 36"
    and m: "m = numeric_limits_max T \<or> m = numeric_limits_max T + 1"
    and c: "is_alnum c" "digit_value c \<ge> base"
  shows "list_all (valid_digit base) ds \<Longrightarrow> 0 \<le> v \<Longrightarrow> v \<le> m \<Longrightarrow>
    base_loop T base negative m (m div base) (m mod base) v at_first (ds @ c # rest) =
      (if accumulate base v ds \<le> m
       then (to_signed T (if negative then - accumulate base v ds else accumulate base v ds),
             PARSE_SUCCESS)
       else (to_signed T (if negative then - m else m), PARSE_OVERFLOW))"
proof (induction ds arbitrary: v at_first)
  case Nil
  have "to_signed T (digit_value c) = digit_value c"
    using digit_value_range [OF c(1)] max_ge_127 [of T] by (intro to_signed_id) auto
  then show ?case using c Nil by (simp add: accumulate_def)
next
  case (Cons d ds)
  have dh: "valid_digit base d" and dt: "list_all (valid_digit base) ds"
    using Cons.prems(1) by simp_all
  have d: "is_alnum d" "digit_value d < base" "list_all (valid_digit base) ds"
    using dh dt unfolding valid_digit_def by blast+
  have dr: "0 \<le> digit_value d" "digit_value d \<le> 35" using digit_value_range [OF d(1)] by auto
  have ds: "to_signed T (digit_value d) = digit_value d"
    using dr max_ge_127 [of T] by (intro to_signed_id) auto
  have mb: "3 \<le> m div base" "m div base \<le> numeric_limits_max T"
    using max_div_bounds [OF b m] by auto
  have m0: "0 \<le> m" "m < modulus T" using m max_ge_127 [of T] by (auto simp: modulus_max)
  have al: "list_all is_alnum ds"
    using dt by (induction ds) (simp_all add: valid_digit_def)
  have g: "unsigned_gt T v (m div base - (if digit_value d > m mod base then 1 else 0))
           = (v * base + digit_value d > m)"
  proof -
    have "unsigned_gt T v (m div base - (if digit_value d > m mod base then 1 else 0))
          = (v > m div base - (if digit_value d > m mod base then 1 else 0))"
      using mb by (intro unsigned_gt_plain) auto
    also have "\<dots> = (v * base + digit_value d > m)"
      using b dr d(2) Cons.prems(2) m0 by (intro overflow_check) auto
    finally show ?thesis .
  qed
  let ?v' = "v * base + digit_value d"
  have acc: "accumulate base v (d # ds) = accumulate base ?v' ds"
    by (simp add: accumulate_def)
  show ?case
  proof (cases "?v' > m")
    case True
    have "0 \<le> v * base" using Cons.prems(2) b by simp
    then have "?v' \<le> accumulate base ?v' ds"
      using dr b al by (intro accumulate_mono) auto
    then have "\<not> accumulate base v (d # ds) \<le> m" using True acc by simp
    moreover have "base_loop T base negative m (m div base) (m mod base) v at_first
        ((d # ds) @ c # rest) = (to_signed T (if negative then - m else m), PARSE_OVERFLOW)"
      using d ds g True by (simp add: Let_def)
    ultimately show ?thesis by simp
  next
    case False
    have v0: "0 \<le> ?v'" using Cons.prems(2) b dr by simp
    have u: "to_unsigned T ?v' = ?v'" using v0 False m0 by (intro to_unsigned_id) auto
    have "base_loop T base negative m (m div base) (m mod base) v at_first
        ((d # ds) @ c # rest)
        = base_loop T base negative m (m div base) (m mod base) ?v' False (ds @ c # rest)"
      using d ds g False u by (simp add: Let_def)
    also have "\<dots> = (if accumulate base ?v' ds \<le> m
       then (to_signed T (if negative then - accumulate base ?v' ds else accumulate base ?v' ds),
             PARSE_SUCCESS)
       else (to_signed T (if negative then - m else m), PARSE_OVERFLOW))"
      using d(3) v0 False by (intro Cons.IH) auto
    finally show ?thesis unfolding acc .
  qed
qed


lemma valid_digits_alnum: "list_all (valid_digit base) ds \<Longrightarrow> list_all is_alnum ds"
  by (induction ds) (simp_all add: valid_digit_def)

lemma sign_negative_prefix:
  "sign_prefix sg \<Longrightarrow> list_all is_alnum ds \<Longrightarrow> sign_negative (sg @ ds) = (sg = ''-'')"
  by (cases ds) (auto simp: sign_prefix_def sign_negative_def dest: alnum_not_sign)

lemma to_signed_result:
  assumes "0 \<le> a" and "a \<le> (if negative then numeric_limits_max T + 1 else numeric_limits_max T)"
  shows "to_signed T (if negative then - a else a) = (if negative then - a else a)"
proof (cases "a = 0")
  case True
  then show ?thesis by (simp add: to_signed_zero)
next
  case False
  then show ?thesis using assms by (auto simp: to_signed_id to_signed_neg)
qed

lemma sign_negative_append: "p \<noteq> [] \<Longrightarrow> sign_negative (p @ r) = sign_negative p"
  by (cases p) (simp_all add: sign_negative_def)

lemma sign_len_append: "p \<noteq> [] \<Longrightarrow> sign_len (p @ r) = sign_len p"
  by (cases p) (simp_all add: sign_len_def)

lemma sign_len_le: "sign_len p \<le> length p"
  by (cases p) (simp_all add: sign_len_def)

lemma skip_ws_append:
  "p \<noteq> [] \<Longrightarrow> SkipLeadingWhitespace p = 0 \<Longrightarrow> SkipLeadingWhitespace (p @ r) = 0"
  by (cases p) (auto simp: SkipLeadingWhitespace_def split: if_splits)

subsection \<open>A digit that is not valid in the base\<close>

text \<open>
  Claim C6, as amended. For every base in \<open>[2,36]\<close> and every width: when the input is an
  optional sign and digits valid in the base, followed by an alphanumeric character
  \<open>c\<close> whose digit value is not below the base, that character ends the scan without
  marking failure and no whitespace rule is applied to what remains. Whatever follows
  \<open>c\<close>, the result is \<open>Success\<close> with the value accumulated from the valid digits (or
  \<open>Overflow\<close> with the clamp, when these digits alone exceed the range of the width).
\<close>

theorem invalid_digit_ends_scan:
  assumes b: "2 \<le> base" "base \<le> 36" and sg: "sign_prefix sg"
    and ds: "list_all (valid_digit base) ds" and c: "is_alnum c" "digit_value c \<ge> base"
  shows "StringToInt_base T (sg @ ds @ c # rest) base =
     (if accumulate base 0 ds
           \<le> (if sg = ''-'' then numeric_limits_max T + 1 else numeric_limits_max T)
      then Inr (if sg = ''-'' then - accumulate base 0 ds else accumulate base 0 ds,
                PARSE_SUCCESS)
      else Inr (if sg = ''-'' then numeric_limits_min T else numeric_limits_max T,
                PARSE_OVERFLOW))"
proof -
  define s where "s = sg @ (ds @ c # rest)"
  define negative where "negative = (sg = ''-'')"
  define m where "m = (if negative then numeric_limits_max T + 1 else numeric_limits_max T)"
  have al1: "list_all is_alnum (ds @ [c])" using valid_digits_alnum [OF ds] c(1) by simp
  define p where "p = sg @ ds @ [c]"
  have s': "s = p @ rest" and p: "p \<noteq> []" by (simp_all add: s_def p_def)
  have n: "s \<noteq> []" by (simp add: s_def)
  have "sign_negative s = sign_negative p"
    unfolding s' by (rule sign_negative_append [OF p])
  also have "\<dots> = negative"
    unfolding p_def negative_def by (rule sign_negative_prefix [OF sg al1])
  finally have neg: "sign_negative s = negative" .
  have "drop (sign_len p) p = ds @ [c]"
    unfolding p_def by (rule drop_sign_len [OF sg al1])
  then have d: "drop (sign_len s) s = ds @ c # rest"
    unfolding s' using sign_len_le [of p] by (simp add: sign_len_append [OF p])
  have "SkipLeadingWhitespace p = 0"
    unfolding p_def by (rule skip_ws_sign [OF sg al1])
  then have k: "SkipLeadingWhitespace s = 0"
    unfolding s' by (rule skip_ws_append [OF p])
  have mm: "m = numeric_limits_max T \<or> m = numeric_limits_max T + 1" by (simp add: m_def)
  have m0: "0 \<le> m" using mm max_ge_127 [of T] by auto
  have mv: "sign_max_val T negative = m" by (simp add: m_def sign_max_val_eq)
  have b0: "base \<noteq> 0" using b by simp
  have dv: "to_signed T (unsigned_div T m base) = m div base"
    using max_div_bounds [OF b mm] unsigned_div_plain [OF b m0, of T] by (simp add: to_signed_id)
  have md: "to_signed T (unsigned_mod T m base) = m mod base"
    using max_div_bounds [OF b mm] unsigned_mod_plain [OF b m0, of T] by (simp add: to_signed_id)
  let ?a = "accumulate base 0 ds"
  have a0: "0 \<le> ?a" using accumulate_mono [of 0 base ds] b valid_digits_alnum [OF ds] by simp
  have "StringToIntInternal_base T s base =
     Inr (base_loop T base negative m (m div base) (m mod base) 0 True (ds @ c # rest))"
    unfolding Internal_base_unfold [OF n b0] neg mv dv md d ..
  also have "\<dots> = Inr (if ?a \<le> m
       then (to_signed T (if negative then - ?a else ?a), PARSE_SUCCESS)
       else (to_signed T (if negative then - m else m), PARSE_OVERFLOW))"
    using base_loop_valid_digits [OF b mm c ds, of 0 negative True rest] m0 by simp
  also have "\<dots> = (if ?a \<le> m then Inr (if negative then - ?a else ?a, PARSE_SUCCESS)
       else Inr (if negative then numeric_limits_min T else numeric_limits_max T, PARSE_OVERFLOW))"
  proof (cases "?a \<le> m")
    case True
    then show ?thesis using to_signed_result [of ?a negative T] a0 by (simp add: m_def)
  next
    case False
    have "to_signed T (if negative then - m else m) = (if negative then - m else m)"
      using to_signed_result [of m negative T] m0 by (simp add: m_def)
    then show ?thesis using False by (simp add: m_def min_max)
  qed
  finally have r: "StringToIntInternal_base T s base =
      (if ?a \<le> m then Inr (if negative then - ?a else ?a, PARSE_SUCCESS)
       else Inr (if negative then numeric_limits_min T else numeric_limits_max T,
                 PARSE_OVERFLOW))" .
  have "StringToInt_base T s base = StringToIntInternal_base T s base"
    by (rule StringToInt_base_no_retry [OF k])
  then show ?thesis
    using r unfolding s_def m_def negative_def by simp
qed

theorem invalid_digit_ends_scan_witness:
  "(2 :: int) \<le> 16 \<and> (16 :: int) \<le> 36 \<and> sign_prefix ''-''
   \<and> list_all (valid_digit 16) ''ff'' \<and> is_alnum (CHR ''z'') \<and> digit_value (CHR ''z'') \<ge> 16
   \<and> StringToInt_base Int32 ''-ffz !'' 16 = Inr (- 255, PARSE_SUCCESS)"
  using invalid_digit_ends_scan [of 16 "''-''" "''ff''" "CHR ''z''" Int32 "'' !''"]
  by (simp add: sign_prefix_def valid_digit_def is_alnum_def is_digit_def is_lower_def
      is_upper_def digit_value_def code_def accumulate_def)

text \<open>
  The claim as stated applies the whitespace rule to the remainder: in base 8 the input
  \<open>19\<close> would fail, since the remainder \<open>9\<close> is not whitespace. The code returns
  \<open>Success\<close> with the value 1.
\<close>

theorem invalid_digit_counterexample:
  "StringToInt_base Int32 ''19'' 8 = Inr (1, PARSE_SUCCESS) \<and> \<not> IsAllWhitespace ''9''"
  by code_simp

subsection \<open>A base outside the range 2 to 36\<close>

text \<open>
  Claim C7, as amended. The base parser does not check its base argument. For every
  base other than 0, in particular for every base outside \<open>[2,36]\<close>, and every non-empty
  input that is an optional sign followed by alphanumeric characters only, the result
  is \<open>Success\<close> or \<open>Overflow\<close>, never \<open>Failure\<close>: a failure comes from the shape of the
  input alone.
\<close>

theorem base_unchecked:
  assumes "base \<noteq> 0" and "sign_prefix sg" and "list_all is_alnum ds" and "sg @ ds \<noteq> []"
  shows "\<exists>v. StringToInt_base T (sg @ ds) base = Inr (v, PARSE_SUCCESS)
            \<or> StringToInt_base T (sg @ ds) base = Inr (v, PARSE_OVERFLOW)"
proof -
  define s where "s = sg @ ds"
  have d: "drop (sign_len s) s = ds" and k: "SkipLeadingWhitespace s = 0" and n: "s \<noteq> []"
    unfolding s_def using assms drop_sign_len [of sg ds] skip_ws_sign [of sg ds] by blast+
  obtain v res where i: "StringToIntInternal_base T s base = Inr (v, res)"
    and r: "res = PARSE_SUCCESS \<or> res = PARSE_OVERFLOW"
    using base_loop_alnum_status [OF assms(3)] Internal_base_unfold [OF n assms(1), of T]
    unfolding d by (metis prod.collapse)
  show ?thesis
    using i r unfolding s_def [symmetric] StringToInt_base_no_retry [OF k] by auto
qed

theorem base_unchecked_witness:
  "(37 :: int) \<noteq> 0 \<and> sign_prefix [] \<and> list_all is_alnum ''10'' \<and> [] @ ''10'' \<noteq> []
   \<and> (\<exists>v. StringToInt_base Int32 ''10'' 37 = Inr (v, PARSE_SUCCESS)
            \<or> StringToInt_base Int32 ''10'' 37 = Inr (v, PARSE_OVERFLOW))"
  using base_unchecked [of 37 "[]" "''10''" Int32]
  by (simp add: sign_prefix_def is_alnum_def is_digit_def code_def)

text \<open>
  The claim as stated has every parse with a base outside \<open>[2,36]\<close> fail. With base 37
  the input \<open>10\<close> parses to 37, and with base \<open>-1\<close> the input \<open>5\<close> parses to 0.
\<close>

theorem base_out_of_range_counterexample:
  "StringToInt_base Int32 ''10'' 37 = Inr (37, PARSE_SUCCESS)
   \<and> StringToInt_base Int32 ''5'' (- 1) = Inr (0, PARSE_SUCCESS)"
  by code_simp

subsection \<open>The scan of a decimal up to an exponent marker\<close>

lemma digit_not_ws: "is_digit c \<Longrightarrow> \<not> IsWhitespace c"
  by (auto simp: is_digit_def code_def IsWhitespace_def)

lemma digit_not_sign: "is_digit c \<Longrightarrow> c \<noteq> CHR ''-'' \<and> c \<noteq> CHR ''+''"
  by (auto simp: is_digit_def code_def)

lemma digit_not_dot: "is_digit c \<Longrightarrow> c \<noteq> CHR ''.''"
  by (auto simp: is_digit_def code_def)

lemma dropWhile_all: "list_all P ws \<Longrightarrow> dropWhile P (ws @ xs) = dropWhile P xs"
  by (induction ws) simp_all

lemma trim_trailing:
  assumes "list_all IsWhitespace ws" and "xs = [] \<or> \<not> IsWhitespace (last xs)"
  shows "rev (dropWhile IsWhitespace (rev (xs @ ws))) = xs"
proof -
  have "list_all IsWhitespace (rev ws)" using assms(1) by (simp add: list_all_iff)
  then have "dropWhile IsWhitespace (rev (xs @ ws)) = dropWhile IsWhitespace (rev xs)"
    by (simp add: dropWhile_all)
  also have "\<dots> = rev xs"
  proof (cases xs rule: rev_cases)
    case Nil
    then show ?thesis by simp
  next
    case (snoc ys y)
    then show ?thesis using assms(2) by simp
  qed
  finally show ?thesis by simp
qed

lemma decimal_loop_exponent_fails:
  assumes e: "e = CHR ''e'' \<or> e = CHR ''E''"
    and x: "StringToIntInternal Int8 rest = (ex, res)" "res \<noteq> PARSE_SUCCESS"
  shows "list_all (\<lambda>c. is_digit c \<or> c = CHR ''.'') b \<Longrightarrow>
    (found_dot st = 0 \<and> count_list b (CHR ''.'') \<le> 1) \<or> count_list b (CHR ''.'') = 0 \<Longrightarrow>
    decimal_loop tp round st (b @ e # rest) =
      Inl (0, if res = PARSE_OVERFLOW \<and> ex < 0 then PARSE_UNDERFLOW else res)"
proof (induction b arbitrary: st)
  case Nil
  have "\<not> is_digit e" "e \<noteq> CHR ''.''" using e by (auto simp: is_digit_def code_def)
  then show ?case using e x by auto
next
  case (Cons c b)
  show ?case
  proof (cases "is_digit c")
    case True
    then have "c \<noteq> CHR ''.''" by (simp add: digit_not_dot)
    then show ?thesis using True Cons by simp
  next
    case False
    then have c: "c = CHR ''.''" using Cons.prems(1) by simp
    then have "found_dot st = 0" "count_list b (CHR ''.'') = 0" using Cons.prems(2) by auto
    then show ?thesis using False c Cons.IH [of "st\<lparr>found_dot := 1\<rparr>"] Cons.prems(1) by simp
  qed
qed


lemma dropWhile_zero_marker:
  "\<not> is_zero e \<Longrightarrow> dropWhile is_zero (b @ e # rest) = dropWhile is_zero b @ e # rest"
  by (induction b) simp_all

lemma count_list_dropWhile: "count_list (dropWhile P xs) x \<le> count_list xs x"
  by (induction xs) simp_all

lemma list_all_dropWhile: "list_all P xs \<Longrightarrow> list_all P (dropWhile Q xs)"
  by (induction xs) simp_all

lemma strip_sign_prefix:
  "sign_prefix sg \<Longrightarrow> \<not> (c = CHR ''-'' \<or> c = CHR ''+'') \<Longrightarrow> strip_sign (sg @ c # cs) = c # cs"
  by (auto simp: sign_prefix_def strip_sign_def)

lemma sign_negative_prefix':
  "sign_prefix sg \<Longrightarrow> \<not> (c = CHR ''-'' \<or> c = CHR ''+'') \<Longrightarrow> sign_negative (sg @ c # cs) = (sg = ''-'')"
  by (auto simp: sign_prefix_def sign_negative_def)

lemma decimal_prefix_shape:
  assumes body: "list_all digit_or_dot body" "count_list body (CHR ''.'') \<le> 1"
    and e: "e = CHR ''e'' \<or> e = CHR ''E''"
    and sg: "sign_prefix sg"
    and s: "rev (dropWhile IsWhitespace (rev (dropWhile IsWhitespace s))) = sg @ body @ e # rest"
  shows "\<exists>st0 b. decimal_prefix s = (sg = ''-'', st0, b @ e # rest) \<and> list_all digit_or_dot b
            \<and> ((found_dot st0 = 0 \<and> count_list b (CHR ''.'') \<le> 1) \<or> count_list b (CHR ''.'') = 0)"
proof -
  have ez: "\<not> is_zero e" and ed: "e \<noteq> CHR ''.''" using e by (auto simp: is_zero_def)
  obtain x xs where x: "body @ e # rest = x # xs" "\<not> (x = CHR ''-'' \<or> x = CHR ''+'')"
    using body(1) e by (cases body) (auto simp: digit_or_dot_def dest: digit_not_sign)
  have neg: "sign_negative (sg @ body @ e # rest) = (sg = ''-'')"
    unfolding x(1) by (rule sign_negative_prefix' [OF sg x(2)])
  have st: "strip_sign (sg @ body @ e # rest) = body @ e # rest"
    unfolding x(1) by (rule strip_sign_prefix [OF sg x(2)])
  have dz: "dropWhile is_zero (body @ e # rest) = dropWhile is_zero body @ e # rest"
    by (rule dropWhile_zero_marker [OF ez])
  have b1: "list_all digit_or_dot (dropWhile is_zero body)"
    by (rule list_all_dropWhile [OF body(1)])
  have c1: "count_list (dropWhile is_zero body) (CHR ''.'') \<le> 1"
    using count_list_dropWhile [of is_zero body "CHR ''.''"] body(2) by simp
  show ?thesis
  proof (cases "dropWhile is_zero body")
    case Nil
    show ?thesis
      using ed by (simp add: decimal_prefix_def s neg st dz Let_def Nil)
  next
    case (Cons c cs)
    show ?thesis
    proof (cases "c = CHR ''.''")
      case True
      have "count_list cs (CHR ''.'') = 0" using c1 True unfolding Cons by simp
      then have "count_list (dropWhile is_zero cs) (CHR ''.'') = 0"
        using count_list_dropWhile [of is_zero cs "CHR ''.''"] by simp
      moreover have "list_all digit_or_dot (dropWhile is_zero cs)"
        using b1 unfolding Cons by (simp add: list_all_dropWhile)
      moreover have "dropWhile is_zero (cs @ e # rest) = dropWhile is_zero cs @ e # rest"
        by (rule dropWhile_zero_marker [OF ez])
      ultimately show ?thesis
        using True by (simp add: decimal_prefix_def s neg st dz Let_def Cons)
    next
      case False
      have "list_all digit_or_dot (c # cs)" "count_list (c # cs) (CHR ''.'') \<le> 1"
        using b1 c1 unfolding Cons by blast+
      then show ?thesis
        using False by (simp add: decimal_prefix_def s neg st dz Let_def Cons)
    qed
  qed
qed

subsection \<open>An exponent that does not parse\<close>

text \<open>
  Claim C5. Take an input in which the scan reaches an exponent marker: optional
  whitespace, an optional sign, digits with at most one dot, the marker \<open>e\<close> or \<open>E\<close>,
  the exponent text \<open>rest\<close>, optional whitespace. When the integer parser for \<open>int8_t\<close>
  does not return \<open>Success\<close> on \<open>rest\<close>, its status is the status of the decimal parse
  (\<open>Failure\<close> stays \<open>Failure\<close>, \<open>Overflow\<close> with a clamped exponent that is not negative
  stays \<open>Overflow\<close>), except that \<open>Overflow\<close> with a negative clamped exponent becomes
  \<open>Underflow\<close>. The value returned is 0.
\<close>

theorem exponent_failure_propagates:
  assumes ws: "list_all IsWhitespace ws1" "list_all IsWhitespace ws2"
    and sg: "sign_prefix sg"
    and body: "list_all digit_or_dot body" "count_list body (CHR ''.'') \<le> 1"
    and e: "e = CHR ''e'' \<or> e = CHR ''E''"
    and rest: "rest = [] \<or> \<not> IsWhitespace (last rest)"
    and x: "StringToIntInternal Int8 rest = (ex, res)" "res \<noteq> PARSE_SUCCESS"
  shows "StringToDecimal (ws1 @ sg @ body @ e # rest @ ws2) type_precision type_scale round =
    (0, if res = PARSE_OVERFLOW \<and> ex < 0 then PARSE_UNDERFLOW else res)"
proof -
  define core where "core = sg @ body @ e # rest"
  have ew: "\<not> IsWhitespace e" using e by (auto simp: IsWhitespace_def)
  obtain y ys where y: "core = y # ys" "\<not> IsWhitespace y"
  proof (cases "sg = []")
    case True
    then show ?thesis using that body(1) ew unfolding core_def
      by (cases body) (auto simp: digit_or_dot_def IsWhitespace_def dest: digit_not_ws)
  next
    case False
    then show ?thesis using that sg unfolding core_def
      by (auto simp: sign_prefix_def IsWhitespace_def)
  qed
  have l: "core = [] \<or> \<not> IsWhitespace (last core)"
    using rest ew unfolding core_def by (cases "rest = []") auto
  have "dropWhile IsWhitespace (ws1 @ core @ ws2) = core @ ws2"
    using ws(1) y by (simp add: dropWhile_all)
  then have s: "rev (dropWhile IsWhitespace (rev (dropWhile IsWhitespace (ws1 @ core @ ws2))))
      = sg @ body @ e # rest"
    using trim_trailing [OF ws(2) l] by (simp add: core_def)
  obtain st0 b where p: "decimal_prefix (ws1 @ core @ ws2) = (sg = ''-'', st0, b @ e # rest)"
    and b: "list_all digit_or_dot b"
      "(found_dot st0 = 0 \<and> count_list b (CHR ''.'') \<le> 1) \<or> count_list b (CHR ''.'') = 0"
    using decimal_prefix_shape [OF body e sg s] by blast
  have "decimal_loop type_precision round st0 (b @ e # rest) =
      Inl (0, if res = PARSE_OVERFLOW \<and> ex < 0 then PARSE_UNDERFLOW else res)"
    using b decimal_loop_exponent_fails [OF e x, of b st0] unfolding digit_or_dot_def by blast
  then have "StringToDecimal (ws1 @ core @ ws2) type_precision type_scale round =
      (0, if res = PARSE_OVERFLOW \<and> ex < 0 then PARSE_UNDERFLOW else res)"
    by (simp add: StringToDecimal_def decimal_scan_def p)
  then show ?thesis by (simp add: core_def)
qed

theorem exponent_failure_propagates_witness:
  "list_all IsWhitespace '' '' \<and> sign_prefix ''-'' \<and> list_all digit_or_dot ''1.5''
   \<and> count_list ''1.5'' (CHR ''.'') \<le> 1 \<and> \<not> IsWhitespace (last ''-129'')
   \<and> StringToIntInternal Int8 ''-129'' = (- 128, PARSE_OVERFLOW)
   \<and> StringToDecimal '' -1.5e-129 '' 5 2 True = (0, PARSE_UNDERFLOW)"
proof -
  have x: "StringToIntInternal Int8 ''-129'' = (- 128, PARSE_OVERFLOW)" by code_simp
  have h: "list_all IsWhitespace '' ''" "sign_prefix ''-''" "list_all digit_or_dot ''1.5''"
    "count_list ''1.5'' (CHR ''.'') \<le> 1" "\<not> IsWhitespace (last ''-129'')"
    by (simp_all add: IsWhitespace_def sign_prefix_def digit_or_dot_def is_digit_def code_def)
  have "StringToDecimal ('' '' @ ''-'' @ ''1.5'' @ CHR ''e'' # ''-129'' @ '' '') 5 2 True =
      (0, if PARSE_OVERFLOW = PARSE_OVERFLOW \<and> (- 128 :: int) < 0
          then PARSE_UNDERFLOW else PARSE_OVERFLOW)"
    using h by (intro exponent_failure_propagates [OF _ _ _ _ _ _ _ x]) simp_all
  then show ?thesis using h x by simp
qed

subsection \<open>Values of the storage type\<close>


lemma abs_to_int128_le:
  assumes "0 \<le> x"
  shows "\<bar>to_int128 x\<bar> \<le> x"
proof -
  define u where "u = x mod int128_modulus"
  have u: "0 \<le> u" "u < int128_modulus" "u \<le> x"
    using assms by (simp_all add: u_def int128_modulus_def zmod_le_nonneg_dividend)
  show ?thesis
  proof (cases "u > int128_max")
    case True
    then have "to_int128 x = u - int128_modulus" by (simp add: to_int128_def u_def)
    then show ?thesis using u True by (simp add: int128_max_def int128_modulus_def)
  next
    case False
    then have "to_int128 x = u" by (simp add: to_int128_def u_def)
    then show ?thesis using u by simp
  qed
qed

subsection \<open>Digits in the loop of the decimal parser\<close>

lemma digit_value_digit: "is_digit c \<Longrightarrow> digit_value c = code c - code (CHR ''0'')"
  by (simp add: digit_value_def)

lemma accumulate_Cons: "accumulate base v (d # ds) = accumulate base (v * base + digit_value d) ds"
  by (simp add: accumulate_def)

lemma accumulate_Nil: "accumulate base v [] = v"
  by (simp add: accumulate_def)

lemma decimal_loop_digits:
  "list_all is_digit ds \<Longrightarrow> total_digits_count st + int (length ds) \<le> tp \<Longrightarrow>
   decimal_loop tp round st (ds @ rest) =
     decimal_loop tp round
       (st\<lparr>found_value := found_value st \<or> ds \<noteq> [],
           dec_value := accumulate 10 (dec_value st) ds,
           total_digits_count := total_digits_count st + int (length ds),
           digits_after_dot_count := digits_after_dot_count st + found_dot st * int (length ds)\<rparr>)
       rest"
proof (induction ds arbitrary: st)
  case Nil
  then show ?case by (simp add: accumulate_Nil)
next
  case (Cons d ds)
  let ?st = "st\<lparr>found_value := True,
              dec_value := dec_value st * 10 + (code d - code (CHR ''0'')),
              first_truncated_digit := first_truncated_digit st,
              total_digits_count := total_digits_count st + 1,
              digits_after_dot_count := digits_after_dot_count st + found_dot st\<rparr>"
  have d: "is_digit d" "list_all is_digit ds" using Cons.prems(1) by simp_all
  have lt: "total_digits_count st < tp" using Cons.prems(2) by simp
  have "decimal_loop tp round st ((d # ds) @ rest) = decimal_loop tp round ?st (ds @ rest)"
    using d(1) lt by simp
  also have "\<dots> = decimal_loop tp round
       (?st\<lparr>found_value := found_value ?st \<or> ds \<noteq> [],
           dec_value := accumulate 10 (dec_value ?st) ds,
           total_digits_count := total_digits_count ?st + int (length ds),
           digits_after_dot_count := digits_after_dot_count ?st + found_dot ?st * int (length ds)\<rparr>)
       rest"
    using d(2) Cons.prems(2) by (intro Cons.IH) simp_all
  finally show ?case
    using d(1) by (simp add: accumulate_Cons digit_value_digit algebra_simps)
qed

lemma decimal_loop_digits_beyond:
  "list_all is_digit ds \<Longrightarrow> tp < total_digits_count st \<Longrightarrow>
   decimal_loop tp round st (ds @ rest) =
     decimal_loop tp round
       (st\<lparr>found_value := found_value st \<or> ds \<noteq> [],
           total_digits_count := total_digits_count st + int (length ds),
           digits_after_dot_count := digits_after_dot_count st + found_dot st * int (length ds)\<rparr>)
       rest"
proof (induction ds arbitrary: st)
  case Nil
  then show ?case by simp
next
  case (Cons d ds)
  let ?st = "st\<lparr>found_value := True,
              total_digits_count := total_digits_count st + 1,
              digits_after_dot_count := digits_after_dot_count st + found_dot st\<rparr>"
  have d: "is_digit d" "list_all is_digit ds" using Cons.prems(1) by simp_all
  have "decimal_loop tp round st ((d # ds) @ rest) = decimal_loop tp round ?st (ds @ rest)"
    using d(1) Cons.prems(2) by simp
  also have "\<dots> = decimal_loop tp round
       (?st\<lparr>found_value := found_value ?st \<or> ds \<noteq> [],
           total_digits_count := total_digits_count ?st + int (length ds),
           digits_after_dot_count := digits_after_dot_count ?st + found_dot ?st * int (length ds)\<rparr>)
       rest"
    using d(2) Cons.prems(2) by (intro Cons.IH) simp_all
  finally show ?case by (simp add: algebra_simps)
qed

lemma decimal_loop_first_truncated:
  "is_digit d \<Longrightarrow> total_digits_count st = tp \<Longrightarrow>
   decimal_loop tp True st (d # rest) =
     decimal_loop tp True
       (st\<lparr>found_value := True,
           first_truncated_digit := digit_value d,
           total_digits_count := tp + 1,
           digits_after_dot_count := digits_after_dot_count st + found_dot st\<rparr>)
       rest"
  by (simp add: digit_value_digit)

lemma decimal_loop_dot:
  "found_dot st = 0 \<Longrightarrow>
   decimal_loop tp round st (CHR ''.'' # rest) = decimal_loop tp round (st\<lparr>found_dot := 1\<rparr>) rest"
  by (simp add: is_digit_def code_def)


lemma digit_or_dot_not_ws: "digit_or_dot c \<Longrightarrow> \<not> IsWhitespace c"
  by (auto simp: digit_or_dot_def IsWhitespace_def dest: digit_not_ws)

lemma digit_or_dot_not_sign: "digit_or_dot c \<Longrightarrow> \<not> (c = CHR ''-'' \<or> c = CHR ''+'')"
  by (auto simp: digit_or_dot_def dest: digit_not_sign)

lemma sign_body_trimmed:
  assumes sg: "sign_prefix sg" and body: "list_all digit_or_dot body" "body \<noteq> []"
  shows "rev (dropWhile IsWhitespace (rev (dropWhile IsWhitespace (sg @ body)))) = sg @ body"
proof -
  obtain c cs where c: "body = c # cs" using body(2) by (cases body) auto
  have d: "dropWhile IsWhitespace (sg @ body) = sg @ body"
    using sg body(1) unfolding c
    by (auto simp: sign_prefix_def IsWhitespace_def dest: digit_or_dot_not_ws)
  have "digit_or_dot (last body)" using body by (simp add: list_all_iff)
  then have "\<not> IsWhitespace (last (sg @ body))"
    using body(2) by (simp add: digit_or_dot_not_ws)
  then have "rev (dropWhile IsWhitespace (rev ((sg @ body) @ []))) = sg @ body"
    by (intro trim_trailing) simp_all
  then show ?thesis by (simp add: d)
qed

lemma decimal_prefix_body:
  assumes sg: "sign_prefix sg" and body: "list_all digit_or_dot body" "body \<noteq> []"
  shows "decimal_prefix (sg @ body) =
     (case dropWhile is_zero body of
        [] \<Rightarrow>
          (sg = ''-'',
           \<lparr>found_value = (takeWhile is_zero body \<noteq> []), found_dot = 0,
            digits_after_dot_count = 0, total_digits_count = 0, first_truncated_digit = 0,
            dec_value = 0\<rparr>, [])
      | c # cs \<Rightarrow>
          if c = CHR ''.'' then
            (sg = ''-'',
             \<lparr>found_value = (takeWhile is_zero body \<noteq> [] \<or> takeWhile is_zero cs \<noteq> []),
              found_dot = 1,
              digits_after_dot_count = int (length (takeWhile is_zero cs)),
              total_digits_count = 0, first_truncated_digit = 0, dec_value = 0\<rparr>,
             dropWhile is_zero cs)
          else
            (sg = ''-'',
             \<lparr>found_value = (takeWhile is_zero body \<noteq> []), found_dot = 0,
              digits_after_dot_count = 0, total_digits_count = 0, first_truncated_digit = 0,
              dec_value = 0\<rparr>, c # cs))"
proof -
  obtain x xs where x: "body = x # xs" using body(2) by (cases body) auto
  have xs: "\<not> (x = CHR ''-'' \<or> x = CHR ''+'')"
    using body(1) unfolding x by (simp add: digit_or_dot_not_sign)
  have neg: "sign_negative (sg @ body) = (sg = ''-'')"
    unfolding x by (rule sign_negative_prefix' [OF sg xs])
  have st: "strip_sign (sg @ body) = body"
    unfolding x by (rule strip_sign_prefix [OF sg xs])
  show ?thesis
    unfolding decimal_prefix_def Let_def sign_body_trimmed [OF assms] neg st by (rule refl)
qed

lemma digits_are_digit_or_dot: "list_all is_digit ds \<Longrightarrow> list_all digit_or_dot ds"
  by (induction ds) (simp_all add: digit_or_dot_def)

lemma accumulate_append:
  "accumulate base v (xs @ ys) = accumulate base (accumulate base v xs) ys"
  by (simp add: accumulate_def)

lemma round_at_full_precision:
  assumes sg: "sign_prefix sg"
    and ip: "list_all is_digit ip" "ip \<noteq> []" "hd ip \<noteq> CHR ''0''"
    and fp: "list_all is_digit fp" and d: "is_digit d" and ms: "list_all is_digit ms"
  shows "StringToDecimal (sg @ ip @ CHR ''.'' # fp @ d # ms)
           (int (length ip) + int (length fp)) (int (length fp)) True =
     (if sg = ''-''
      then - (accumulate 10 0 (ip @ fp) + (if digit_value d \<ge> 5 then 1 else 0))
      else accumulate 10 0 (ip @ fp) + (if digit_value d \<ge> 5 then 1 else 0),
      if accumulate 10 0 (ip @ fp) + (if digit_value d \<ge> 5 then 1 else 0)
           = 10 ^ (length ip + length fp)
      then PARSE_OVERFLOW else PARSE_UNDERFLOW)"
proof -
  define tp where "tp = int (length ip) + int (length fp)"
  define body where "body = ip @ CHR ''.'' # fp @ d # ms"
  obtain c cs where c: "ip = c # cs" using ip(2) by (cases ip) auto
  have c0: "\<not> is_zero c" "c \<noteq> CHR ''.''"
    using ip(1,3) unfolding c by (auto simp: is_zero_def dest: digit_not_dot)
  have bd: "list_all digit_or_dot body" "body \<noteq> []"
    using digits_are_digit_or_dot [OF ip(1)] digits_are_digit_or_dot [OF fp]
      digits_are_digit_or_dot [OF ms] d
    by (simp_all add: body_def digit_or_dot_def)
  let ?st0 = "\<lparr>found_value = False, found_dot = 0, digits_after_dot_count = 0,
      total_digits_count = 0, first_truncated_digit = 0, dec_value = 0\<rparr>"
  have p: "decimal_prefix (sg @ body) = (sg = ''-'', ?st0, body)"
    unfolding decimal_prefix_body [OF sg bd] using c0 by (simp add: body_def c)
  let ?st5 = "\<lparr>found_value = True, found_dot = 1,
      digits_after_dot_count = int (length fp) + 1 + int (length ms),
      total_digits_count = tp + 1 + int (length ms),
      first_truncated_digit = digit_value d, dec_value = accumulate 10 0 (ip @ fp)\<rparr>"
  have "decimal_loop tp True ?st0 body = decimal_loop tp True ?st5 []"
    unfolding body_def
    apply (subst decimal_loop_digits [OF ip(1)])
     apply (simp add: tp_def)
    apply (subst decimal_loop_dot)
     apply simp
    apply (subst decimal_loop_digits [OF fp])
     apply (simp add: tp_def)
    apply (subst decimal_loop_first_truncated [OF d])
     apply (simp add: tp_def)
    apply (subst append_Nil2 [of ms, symmetric])
    apply (subst decimal_loop_digits_beyond [OF ms])
     apply simp
    apply (simp add: ip(2) accumulate_append tp_def)
    done
  then have l: "decimal_loop tp True ?st0 body = Inr (?st5, 0)" by simp
  have sc: "decimal_scan (sg @ body) tp True = Inr (sg = ''-'', ?st5, 0)"
    by (simp add: decimal_scan_def p l)
  have lp: "0 < int (length ip)" using ip(2) by simp
  have tpf: "int (length ip) + int (length fp) = tp" by (simp add: tp_def)
  have "StringToDecimal (sg @ body) tp (int (length fp)) True =
     (if sg = ''-''
      then - (accumulate 10 0 (ip @ fp) + (if digit_value d \<ge> 5 then 1 else 0))
      else accumulate 10 0 (ip @ fp) + (if digit_value d \<ge> 5 then 1 else 0),
      if accumulate 10 0 (ip @ fp) + (if digit_value d \<ge> 5 then 1 else 0)
           = GetScaleMultiplier tp
      then PARSE_OVERFLOW else PARSE_UNDERFLOW)"
    using lp tpf by (simp add: StringToDecimal_def sc decimal_finish_def ApplyExponent_def
        Let_def)
  moreover have "GetScaleMultiplier tp = 10 ^ (length ip + length fp)"
    by (simp add: GetScaleMultiplier_def tp_def nat_add_distrib)
  ultimately show ?thesis unfolding body_def tp_def by simp
qed

subsection \<open>Invariants of the scan\<close>

lemma digit_code_range: "is_digit c \<Longrightarrow> 0 \<le> code c - code (CHR ''0'') \<and> code c - code (CHR ''0'') \<le> 9"
  by (simp add: is_digit_def) (simp add: code_def)

lemma decimal_loop_early_status:
  "decimal_loop tp round st cs = Inl (x, res) \<Longrightarrow> res \<noteq> PARSE_SUCCESS"
  by (induction cs arbitrary: st) (auto split: if_splits prod.splits)

lemma decimal_loop_inv:
  "decimal_loop tp round st cs = Inr (st', ex) \<Longrightarrow>
   0 \<le> total_digits_count st \<Longrightarrow> 0 \<le> digits_after_dot_count st \<Longrightarrow>
   0 \<le> found_dot st \<Longrightarrow> 0 \<le> dec_value st \<Longrightarrow>
   dec_value st < 10 ^ nat (total_digits_count st) \<Longrightarrow>
   0 \<le> total_digits_count st' \<and> 0 \<le> digits_after_dot_count st' \<and> 0 \<le> dec_value st'
   \<and> dec_value st' < 10 ^ nat (total_digits_count st')"
proof (induction cs arbitrary: st)
  case Nil
  then show ?case by simp
next
  case (Cons c cs)
  show ?case
  proof (cases "is_digit c")
    case True
    let ?d = "code c - code (CHR ''0'')"
    let ?st = "st\<lparr>found_value := True,
              dec_value :=
                (if total_digits_count st < tp then dec_value st * 10 + ?d else dec_value st),
              first_truncated_digit :=
                (if \<not> total_digits_count st < tp \<and> round \<and> total_digits_count st = tp
                 then ?d else first_truncated_digit st),
              total_digits_count := total_digits_count st + 1,
              digits_after_dot_count := digits_after_dot_count st + found_dot st\<rparr>"
    have d: "0 \<le> ?d" "?d \<le> 9" using digit_code_range [OF True] by auto
    have l: "decimal_loop tp round ?st cs = Inr (st', ex)"
      using Cons.prems(1) True by simp
    have p: "(10::int) ^ nat (total_digits_count st + 1) = 10 * 10 ^ nat (total_digits_count st)"
      using Cons.prems(2) by (simp add: nat_add_distrib)
    have "dec_value st * 10 + ?d < 10 * 10 ^ nat (total_digits_count st)"
      using Cons.prems(6) d by linarith
    moreover have "dec_value st < 10 * 10 ^ nat (total_digits_count st)"
      using Cons.prems(5,6) by linarith
    ultimately have "dec_value ?st < 10 ^ nat (total_digits_count ?st)"
      using p by simp
    moreover have "0 \<le> dec_value ?st" using Cons.prems(5) d by simp
    ultimately show ?thesis
      using Cons.IH [OF l] Cons.prems(2,3,4) by simp
  next
    case False
    note nd = False
    show ?thesis
    proof (cases "c = CHR ''.'' \<and> found_dot st = 0")
      case True
      then have l: "decimal_loop tp round (st\<lparr>found_dot := 1\<rparr>) cs = Inr (st', ex)"
        using Cons.prems(1) nd by simp
      show ?thesis using Cons.IH [OF l] Cons.prems(2-6) by simp
    next
      case False
      then have "st' = st"
        using Cons.prems(1) nd by (auto split: if_splits prod.splits)
      then show ?thesis using Cons.prems(2-6) by simp
    qed
  qed
qed

lemma decimal_prefix_inv:
  "decimal_prefix s = (neg, st0, body) \<Longrightarrow>
   total_digits_count st0 = 0 \<and> 0 \<le> digits_after_dot_count st0 \<and> 0 \<le> found_dot st0
   \<and> dec_value st0 = 0"
  by (auto simp: decimal_prefix_def Let_def split: list.splits if_splits)

subsection \<open>The scan of a number with too many integer digits\<close>
















subsection \<open>Too many integer digits\<close>




subsection \<open>Rounding when the accumulator is full\<close>

text \<open>
  Claim C3. With \<open>round = true\<close>: whenever the scan ends without an early return, the
  integer digits fit, the number has more fractional digits than \<open>type_scale\<close> and the
  shift \<open>value_scale - type_scale\<close> is 0, the magnitude returned is the value of the scan
  plus one exactly when the remembered first truncated digit is at least 5, and the
  status is \<open>Overflow\<close> when this magnitude equals \<open>10 ^ type_precision\<close> and \<open>Underflow\<close>
  otherwise. Inputs of the form sign, integer digits, dot, \<open>type_scale\<close> fractional
  digits, one more digit \<open>d\<close> and further digits, with \<open>type_precision\<close> the number of
  digits before \<open>d\<close>, take this branch: the kept digits are rounded up exactly when
  \<open>d\<close> is at least 5. The \<open>Overflow\<close> case is reached by \<open>99999.9\<close> with precision 5 and
  scale 0.
\<close>

theorem rounding_at_full_precision:
  "(\<forall>s tp ts is_negative st exponent v precision scale.
      decimal_scan s tp True = Inr (is_negative, st, exponent)
      \<and> ApplyExponent (total_digits_count st) (digits_after_dot_count st) exponent
            (dec_value st) = (v, precision, scale)
      \<and> \<not> precision - scale > tp - ts \<and> scale > ts
      \<and> scale - max (total_digits_count st - tp) 0 - ts = 0
      \<longrightarrow> StringToDecimal s tp ts True =
            (if is_negative then - (v + (if first_truncated_digit st \<ge> 5 then 1 else 0))
             else v + (if first_truncated_digit st \<ge> 5 then 1 else 0),
             if v + (if first_truncated_digit st \<ge> 5 then 1 else 0) = 10 ^ nat tp
             then PARSE_OVERFLOW else PARSE_UNDERFLOW))
   \<and> (\<forall>sg ip fp d ms.
      sign_prefix sg \<and> list_all is_digit ip \<and> ip \<noteq> [] \<and> hd ip \<noteq> CHR ''0''
      \<and> list_all is_digit fp \<and> is_digit d \<and> list_all is_digit ms
      \<longrightarrow> StringToDecimal (sg @ ip @ CHR ''.'' # fp @ d # ms)
             (int (length ip) + int (length fp)) (int (length fp)) True =
            (if sg = ''-''
             then - (accumulate 10 0 (ip @ fp) + (if digit_value d \<ge> 5 then 1 else 0))
             else accumulate 10 0 (ip @ fp) + (if digit_value d \<ge> 5 then 1 else 0),
             if accumulate 10 0 (ip @ fp) + (if digit_value d \<ge> 5 then 1 else 0)
                  = 10 ^ (length ip + length fp)
             then PARSE_OVERFLOW else PARSE_UNDERFLOW))
   \<and> StringToDecimal ''99999.9'' 5 0 True = (100000, PARSE_OVERFLOW)"
proof (intro conjI allI impI)
  fix s tp ts is_negative st exponent v precision scale
  assume "decimal_scan s tp True = Inr (is_negative, st, exponent)
      \<and> ApplyExponent (total_digits_count st) (digits_after_dot_count st) exponent
            (dec_value st) = (v, precision, scale)
      \<and> \<not> precision - scale > tp - ts \<and> scale > ts
      \<and> scale - max (total_digits_count st - tp) 0 - ts = 0"
  then show "StringToDecimal s tp ts True =
            (if is_negative then - (v + (if first_truncated_digit st \<ge> 5 then 1 else 0))
             else v + (if first_truncated_digit st \<ge> 5 then 1 else 0),
             if v + (if first_truncated_digit st \<ge> 5 then 1 else 0) = 10 ^ nat tp
             then PARSE_OVERFLOW else PARSE_UNDERFLOW)"
    by (simp add: StringToDecimal_def decimal_finish_def GetScaleMultiplier_def Let_def)
next
  fix sg ip fp d ms
  assume "sign_prefix sg \<and> list_all is_digit ip \<and> ip \<noteq> [] \<and> hd ip \<noteq> CHR ''0''
      \<and> list_all is_digit fp \<and> is_digit d \<and> list_all is_digit ms"
  then show "StringToDecimal (sg @ ip @ CHR ''.'' # fp @ d # ms)
             (int (length ip) + int (length fp)) (int (length fp)) True =
            (if sg = ''-''
             then - (accumulate 10 0 (ip @ fp) + (if digit_value d \<ge> 5 then 1 else 0))
             else accumulate 10 0 (ip @ fp) + (if digit_value d \<ge> 5 then 1 else 0),
             if accumulate 10 0 (ip @ fp) + (if digit_value d \<ge> 5 then 1 else 0)
                  = 10 ^ (length ip + length fp)
             then PARSE_OVERFLOW else PARSE_UNDERFLOW)"
    using round_at_full_precision [of sg ip fp d ms] by blast
next
  show "StringToDecimal ''99999.9'' 5 0 True = (100000, PARSE_OVERFLOW)" by code_simp
qed

theorem rounding_at_full_precision_witness:
  "decimal_scan ''99999.9'' 5 True =
     Inr (False, \<lparr>found_value = True, found_dot = 1, digits_after_dot_count = 1,
                 total_digits_count = 6, first_truncated_digit = 9, dec_value = 99999\<rparr>, 0)
   \<and> ApplyExponent 6 1 0 99999 = (99999, 6, 1)
   \<and> \<not> (6 :: int) - 1 > 5 - 0 \<and> (1 :: int) > 0 \<and> (1 :: int) - max (6 - 5) 0 - 0 = 0
   \<and> StringToDecimal ''99999.9'' 5 0 True = (100000, PARSE_OVERFLOW)
   \<and> sign_prefix ''-'' \<and> list_all is_digit ''12'' \<and> hd ''12'' \<noteq> CHR ''0''
   \<and> list_all is_digit ''34'' \<and> is_digit (CHR ''5'') \<and> list_all is_digit ''6''
   \<and> StringToDecimal ''-12.3456'' 4 2 True = (- 1235, PARSE_UNDERFLOW)"
proof -
  let ?st = "\<lparr>found_value = True, found_dot = 1, digits_after_dot_count = 1,
                 total_digits_count = 6, first_truncated_digit = 9, dec_value = 99999\<rparr>"
  have a: "decimal_scan ''99999.9'' 5 True = Inr (False, ?st, 0)" by code_simp
  have b: "ApplyExponent 6 1 0 99999 = (99999, 6, 1)" by code_simp
  have c: "sign_prefix ''-''" "list_all is_digit ''12''" "hd ''12'' \<noteq> CHR ''0''"
    "list_all is_digit ''34''" "is_digit (CHR ''5'')" "list_all is_digit ''6''"
    by (simp_all add: sign_prefix_def is_digit_def code_def)
  have d: "accumulate 10 0 (''12'' @ ''34'') = 1234" "digit_value (CHR ''5'') = 5"
    by code_simp+
  note t = rounding_at_full_precision
  have "StringToDecimal ''99999.9'' 5 0 True = (100000, PARSE_OVERFLOW)"
    using t [THEN conjunct1, rule_format, of "''99999.9''" 5 False ?st 0 99999 6 1 0] a b
    by simp
  moreover have "StringToDecimal (''-'' @ ''12'' @ CHR ''.'' # ''34'' @ CHR ''5'' # ''6'')
      (int (length ''12'') + int (length ''34'')) (int (length ''34'')) True
      = (- 1235, PARSE_UNDERFLOW)"
    using t [THEN conjunct2, THEN conjunct1, rule_format,
        of "''-''" "''12''" "''34''" "CHR ''5''" "''6''"] c
    unfolding d by simp
  ultimately show ?thesis using a b c by simp
qed

subsection \<open>The digits of the canonical rendering\<close>

lemma digit_char_0: "digit_char 0 = CHR ''0''"
  unfolding digit_char_def by code_simp

lemma code_digit_char: "d < 10 \<Longrightarrow> code (digit_char d) = 48 + int d"
  by (simp add: code_def digit_char_def)

lemma is_digit_digit_char: "d < 10 \<Longrightarrow> is_digit (digit_char d)"
  by (simp add: is_digit_def code_digit_char) (simp add: code_def)

lemma digit_value_digit_char: "d < 10 \<Longrightarrow> digit_value (digit_char d) = int d"
  using is_digit_digit_char [of d]
  by (simp add: digit_value_def code_digit_char) (simp add: code_def)

lemma is_zero_digit_char: "d < 10 \<Longrightarrow> is_zero (digit_char d) = (d = 0)"
proof -
  assume d: "d < 10"
  have "code (CHR ''0'') = 48" by (simp add: code_def)
  then have "digit_char d = CHR ''0'' \<Longrightarrow> d = 0"
    using code_digit_char [OF d] by simp
  moreover have "digit_char 0 = CHR ''0''" by (rule digit_char_0)
  ultimately show ?thesis by (auto simp: is_zero_def)
qed

lemma length_fixed_digits: "length (fixed_digits k n) = k"
  by (induction k n rule: fixed_digits.induct) simp_all

lemma fixed_digits_are_digits: "list_all is_digit (fixed_digits k n)"
  by (induction k n rule: fixed_digits.induct) (simp_all add: is_digit_digit_char)

lemma accumulate_snoc:
  "accumulate base v (ds @ [d]) = accumulate base v ds * base + digit_value d"
  by (simp add: accumulate_def)

lemma accumulate_fixed_digits:
  "accumulate 10 v (fixed_digits k n) = v * 10 ^ k + int (n mod 10 ^ k)"
proof (induction k n rule: fixed_digits.induct)
  case (1 n)
  then show ?case by (simp add: accumulate_def)
next
  case (2 k n)
  have "n mod (10 * 10 ^ k) = 10 * (n div 10 mod 10 ^ k) + n mod 10"
    by (simp add: mod_mult2_eq)
  then show ?case
    using 2 by (simp add: accumulate_snoc digit_value_digit_char algebra_simps)
qed

lemma nat_digits_are_digits: "list_all is_digit (nat_digits n)"
  by (induction n rule: nat_digits.induct)
    (subst nat_digits.simps, simp add: is_digit_digit_char)

lemma nat_digits_not_Nil: "nat_digits n \<noteq> []"
  by (subst nat_digits.simps) simp

lemma accumulate_nat_digits: "accumulate 10 0 (nat_digits n) = int n"
proof (induction n rule: nat_digits.induct)
  case (1 n)
  show ?case
  proof (cases "n < 10")
    case True
    then show ?thesis
      by (subst nat_digits.simps) (simp add: accumulate_def digit_value_digit_char)
  next
    case False
    have "int (n div 10) * 10 + int (n mod 10) = int n" by presburger
    then show ?thesis
      using 1 False by (subst nat_digits.simps)
        (simp add: accumulate_snoc digit_value_digit_char)
  qed
qed

lemma hd_nat_digits: "0 < n \<Longrightarrow> \<not> is_zero (hd (nat_digits n))"
proof (induction n rule: nat_digits.induct)
  case (1 n)
  show ?case
  proof (cases "n < 10")
    case True
    then show ?thesis
      using 1(2) by (subst nat_digits.simps) (simp add: is_zero_digit_char)
  next
    case False
    then have "0 < n div 10" by simp
    then show ?thesis
      using 1(1) False nat_digits_not_Nil [of "n div 10"]
      by (subst nat_digits.simps) simp
  qed
qed

lemma length_nat_digits: "n < 10 ^ k \<Longrightarrow> 0 < k \<Longrightarrow> length (nat_digits n) \<le> k"
proof (induction n arbitrary: k rule: nat_digits.induct)
  case (1 n)
  show ?case
  proof (cases "n < 10")
    case True
    then show ?thesis using 1(3) by (subst nat_digits.simps) simp
  next
    case False
    obtain j where j: "k = Suc j" using 1(3) by (cases k) auto
    have "j \<noteq> 0" using False 1(2) j by (cases j) auto
    moreover have "n div 10 < 10 ^ j" using 1(2) j by (simp add: less_mult_imp_div_less)
    ultimately have "length (nat_digits (n div 10)) \<le> j"
      using 1(1) [OF False, of j] by simp
    then show ?thesis using False j by (subst nat_digits.simps) simp
  qed
qed

lemma nat_digits_zero: "nat_digits 0 = ''0''"
  by (subst nat_digits.simps) (simp add: digit_char_0)

lemma accumulate_dropWhile_zero:
  "accumulate 10 0 (dropWhile is_zero ds) = accumulate 10 0 ds"
proof (induction ds)
  case Nil
  then show ?case by simp
next
  case (Cons d ds)
  have "is_zero d \<Longrightarrow> digit_value d = 0"
    by (simp add: is_zero_def digit_value_def is_digit_def code_def)
  then show ?case using Cons by (simp add: accumulate_Cons)
qed

subsection \<open>Bounds of a successful decimal parse\<close>

lemma power10_mono: "a \<le> b \<Longrightarrow> (10::int) ^ nat a \<le> 10 ^ nat b"
  by (intro power_increasing) auto

lemma finish_success_bounds:
  assumes f: "decimal_finish tp ts round neg st ex = (v, PARSE_SUCCESS)"
    and i: "0 \<le> total_digits_count st" "0 \<le> digits_after_dot_count st"
      "0 \<le> dec_value st" "dec_value st < 10 ^ nat (total_digits_count st)"
  shows "0 \<le> ts \<and> ts \<le> tp \<and> \<bar>v\<bar> < 10 ^ nat tp"
proof -
  define T where "T = total_digits_count st"
  define D where "D = digits_after_dot_count st"
  define V where "V = dec_value st"
  have iv: "0 \<le> T" "0 \<le> D" "0 \<le> V" "V < 10 ^ nat T" using i by (simp_all add: T_def D_def V_def)
  show ?thesis
  proof (cases "ex > D")
    case True
    define k where "k = ex - D"
    define W where "W = to_int128 (V * 10 ^ nat k)"
    have k: "0 < k" using True by (simp add: k_def)
    have a: "ApplyExponent T D ex V = (W, T + k, 0)"
      using True by (simp add: ApplyExponent_def GetScaleMultiplier_def k_def W_def)
    have c: "\<not> T + k > tp - ts" "0 \<le> ts"
      and v: "\<bar>v\<bar> = \<bar>W\<bar> * 10 ^ nat ts"
      using f unfolding decimal_finish_def T_def [symmetric] D_def [symmetric]
        V_def [symmetric] a
      by (auto simp: Let_def GetScaleMultiplier_def abs_mult split: if_splits)
    have "\<bar>W\<bar> \<le> V * 10 ^ nat k"
      unfolding W_def using iv(3) by (intro abs_to_int128_le) simp
    then have "\<bar>W\<bar> * 10 ^ nat ts \<le> V * 10 ^ nat k * 10 ^ nat ts"
      by (intro mult_right_mono) simp_all
    also have "\<dots> < 10 ^ nat T * 10 ^ nat k * 10 ^ nat ts"
      using iv(4) by simp
    also have "\<dots> = 10 ^ nat (T + k + ts)"
      using iv(1) k c(2) by (simp add: nat_add_distrib power_add)
    also have "\<dots> \<le> 10 ^ nat tp" using c(1) by (intro power10_mono) simp
    finally show ?thesis using v c iv(1) k by simp
  next
    case False
    define sc where "sc = D - ex"
    have sc: "0 \<le> sc" using False by (simp add: sc_def)
    define pr where "pr = (if T < sc then sc else T)"
    have a: "ApplyExponent T D ex V = (V, pr, sc)"
      using False by (simp add: ApplyExponent_def sc_def pr_def)
    have c: "\<not> pr - sc > tp - ts" "sc \<le> ts"
      and v: "\<bar>v\<bar> = V * 10 ^ nat (ts - sc)"
      using f iv(3) unfolding decimal_finish_def T_def [symmetric] D_def [symmetric]
        V_def [symmetric] a
      by (auto simp: Let_def GetScaleMultiplier_def abs_mult split: if_splits)
    have tp: "T \<le> pr" "sc \<le> pr" by (simp_all add: pr_def)
    have "V * 10 ^ nat (ts - sc) < 10 ^ nat T * 10 ^ nat (ts - sc)"
      using iv(4) by simp
    also have "\<dots> = 10 ^ nat (T + (ts - sc))"
      using iv(1) c(2) by (simp add: nat_add_distrib power_add)
    also have "\<dots> \<le> 10 ^ nat tp" using c(1) tp by (intro power10_mono) simp
    finally show ?thesis using v c sc tp by simp
  qed
qed

lemma success_bounds:
  assumes "StringToDecimal s tp ts round = (v, PARSE_SUCCESS)"
  shows "0 \<le> ts \<and> ts \<le> tp \<and> \<bar>v\<bar> < 10 ^ nat tp"
proof -
  obtain neg st0 body where p: "decimal_prefix s = (neg, st0, body)"
    by (cases "decimal_prefix s") auto
  note i0 = decimal_prefix_inv [OF p]
  show ?thesis
  proof (cases "decimal_loop tp round st0 body")
    case (Inl early)
    obtain x res where "early = (x, res)" by (cases early) auto
    then have "res \<noteq> PARSE_SUCCESS" using decimal_loop_early_status Inl by blast
    then show ?thesis
      using assms Inl \<open>early = (x, res)\<close> by (simp add: StringToDecimal_def decimal_scan_def p)
  next
    case (Inr r)
    obtain st ex where r: "r = (st, ex)" by (cases r) auto
    have l: "decimal_loop tp round st0 body = Inr (st, ex)" using Inr r by simp
    have i: "0 \<le> total_digits_count st \<and> 0 \<le> digits_after_dot_count st \<and> 0 \<le> dec_value st
       \<and> dec_value st < 10 ^ nat (total_digits_count st)"
      using i0 by (intro decimal_loop_inv [OF l]) simp_all
    have f: "decimal_finish tp ts round neg st ex = (v, PARSE_SUCCESS)"
      using assms by (simp add: StringToDecimal_def decimal_scan_def p l)
    show ?thesis using finish_success_bounds [OF f] i by blast
  qed
qed

subsection \<open>Parsing a canonical rendering\<close>

lemma length_take_drop_zero:
  "int (length (takeWhile is_zero fs)) + int (length (dropWhile is_zero fs)) = int (length fs)"
proof -
  have "length (takeWhile is_zero fs @ dropWhile is_zero fs) = length fs" by simp
  then show ?thesis unfolding length_append by linarith
qed

lemma finish_exact_scale:
  assumes "0 \<le> n" and "n - ts \<le> tp - ts" and "0 \<le> ts" and "ts \<le> tp"
    and "total_digits_count st = n" and "digits_after_dot_count st = ts"
    and "found_value st"
  shows "decimal_finish tp ts round neg st 0 =
      (if neg then - dec_value st else dec_value st, PARSE_SUCCESS)"
  using assms by (simp add: decimal_finish_def ApplyExponent_def Let_def)


lemma parse_canonical_rendering:
  assumes ts: "0 \<le> ts" "ts \<le> tp" and b: "\<bar>v\<bar> < 10 ^ nat tp"
  shows "StringToDecimal (canonical_rendering v ts) tp ts round = (v, PARSE_SUCCESS)"
proof -
  define k where "k = nat ts"
  define a where "a = \<bar>v\<bar>"
  define I where "I = nat (a div 10 ^ k)"
  define F where "F = nat (a mod 10 ^ k)"
  define sg where "sg = (if v < 0 then ''-'' else [])"
  define fs where "fs = fixed_digits k F"
  define frac where "frac = (if ts > 0 then CHR ''.'' # fs else [])"
  define ds where "ds = nat_digits I"
  define body where "body = ds @ frac"
  let ?zero = "\<lparr>found_value = False, found_dot = 0, digits_after_dot_count = 0,
      total_digits_count = 0, first_truncated_digit = 0, dec_value = 0\<rparr>"
  have a0: "0 \<le> a" by (simp add: a_def)
  have kts: "int k = ts" using ts(1) by (simp add: k_def)
  have iI: "int I = a div 10 ^ k" using a0 by (simp add: I_def pos_imp_zdiv_nonneg_iff)
  have iF: "int F = a mod 10 ^ k" by (simp add: F_def)
  have aIF: "a = int I * 10 ^ k + int F" unfolding iI iF by (rule div_mult_mod_eq [symmetric])
  have Fk: "F mod 10 ^ k = F"
  proof -
    have "int F < 10 ^ k" unfolding iF by simp
    then have "F < 10 ^ k" by (metis of_nat_less_iff of_nat_numeral of_nat_power)
    then show ?thesis by simp
  qed
  have r: "canonical_rendering v ts = sg @ body"
    by (simp add: canonical_rendering_def sg_def body_def ds_def frac_def fs_def I_def F_def
        a_def k_def)
  have sg: "sign_prefix sg" "(sg = ''-'') = (v < 0)" by (simp_all add: sg_def sign_prefix_def)
  have va: "v = (if v < 0 then - a else a)" by (simp add: a_def)
  have dsd: "list_all is_digit ds" "ds \<noteq> []"
    by (simp_all add: ds_def nat_digits_are_digits nat_digits_not_Nil)
  have fsd: "list_all is_digit fs" "length fs = k"
    by (simp_all add: fs_def fixed_digits_are_digits length_fixed_digits)
  have bd: "list_all digit_or_dot body" "body \<noteq> []"
    using dsd fsd by (simp_all add: body_def frac_def digits_are_digit_or_dot digit_or_dot_def)
  note pb = decimal_prefix_body [OF sg(1) bd]
  have accF: "accumulate 10 w fs = w * 10 ^ k + int F" for w
    by (simp add: fs_def accumulate_fixed_digits Fk)
  show ?thesis
  proof (cases "I = 0")
    case True
    have ds0: "ds = ''0''" by (simp add: ds_def True nat_digits_zero)
    have aF: "a = int F" using aIF True by simp
    show ?thesis
    proof (cases "ts > 0")
      case False
      then have "k = 0" using ts(1) by (simp add: k_def)
      then have "F = 0" by (simp add: F_def)
      then have v0: "v = 0" using aF by (simp add: a_def)
      have body0: "body = ''0''" using False by (simp add: body_def ds0 frac_def)
      have p: "decimal_prefix (sg @ body) = (False, ?zero\<lparr>found_value := True\<rparr>, [])"
        unfolding pb using sg(2) v0 by (simp add: body0 is_zero_def)
      have "StringToDecimal (sg @ body) tp ts round = (0, PARSE_SUCCESS)"
        using ts False
        by (simp add: StringToDecimal_def decimal_scan_def p finish_exact_scale [of 0])
      then show ?thesis unfolding r by (simp add: v0)
    next
      case pos: True
      define zs where "zs = takeWhile is_zero fs"
      define ds' where "ds' = dropWhile is_zero fs"
      have body1: "body = CHR ''0'' # CHR ''.'' # fs" using pos by (simp add: body_def ds0 frac_def)
      let ?st0 = "\<lparr>found_value = True, found_dot = 1,
         digits_after_dot_count = int (length zs),
         total_digits_count = 0, first_truncated_digit = 0, dec_value = 0\<rparr>"
      have p: "decimal_prefix (sg @ body) = (v < 0, ?st0, ds')"
        unfolding pb using sg(2) by (simp add: body1 is_zero_def zs_def ds'_def)
      have d': "list_all is_digit ds'" unfolding ds'_def by (rule list_all_dropWhile [OF fsd(1)])
      have len: "int (length zs) + int (length ds') = ts"
        unfolding zs_def ds'_def length_take_drop_zero fsd(2) by (rule kts)
      have le: "total_digits_count ?st0 + int (length ds') \<le> tp" using len ts by simp
      let ?st1 = "?st0\<lparr>found_value := found_value ?st0 \<or> ds' \<noteq> [],
           dec_value := accumulate 10 (dec_value ?st0) ds',
           total_digits_count := total_digits_count ?st0 + int (length ds'),
           digits_after_dot_count :=
             digits_after_dot_count ?st0 + found_dot ?st0 * int (length ds')\<rparr>"
      have "decimal_loop tp round ?st0 (ds' @ []) = decimal_loop tp round ?st1 []"
        by (rule decimal_loop_digits [OF d' le])
      then have l: "decimal_loop tp round ?st0 ds' = Inr (?st1, 0)" by simp
      have val: "dec_value ?st1 = a"
        using accF [of 0] by (simp add: ds'_def accumulate_dropWhile_zero aF)
      have f: "decimal_finish tp ts round (v < 0) ?st1 0 =
          (if v < 0 then - dec_value ?st1 else dec_value ?st1, PARSE_SUCCESS)"
        using ts len by (intro finish_exact_scale [of "int (length ds')"]) simp_all
      have "StringToDecimal (sg @ body) tp ts round = (if v < 0 then - a else a, PARSE_SUCCESS)"
        unfolding StringToDecimal_def decimal_scan_def p using l f val by simp
      then show ?thesis unfolding r using va by simp
    qed
  next
    case False
    then have Ipos: "0 < I" by simp
    obtain c cs where c: "ds = c # cs" using dsd(2) by (cases ds) auto
    have "\<not> is_zero (hd ds)" unfolding ds_def by (rule hd_nat_digits [OF Ipos])
    then have c0: "\<not> is_zero c" "c \<noteq> CHR ''.''"
      using dsd(1) unfolding c by (auto dest: digit_not_dot)
    have p: "decimal_prefix (sg @ body) = (v < 0, ?zero, body)"
      unfolding pb using c0 sg(2) by (simp add: body_def c)
    have ktp: "k \<le> nat tp" using ts by (simp add: k_def)
    have "int I * 10 ^ k \<le> a" using aIF by simp
    then have "int I * 10 ^ k < 10 ^ (nat tp - k) * 10 ^ k"
      using b ktp unfolding a_def [symmetric] by (simp add: power_add [symmetric])
    then have "int I < 10 ^ (nat tp - k)" by simp
    then have Ilt: "I < 10 ^ (nat tp - k)" by (metis of_nat_less_iff of_nat_numeral of_nat_power)
    have kpos: "0 < nat tp - k" using Ilt Ipos by (cases "nat tp - k") auto
    have lds: "length ds \<le> nat tp - k" unfolding ds_def by (rule length_nat_digits [OF Ilt kpos])
    have "int (length ds + k) \<le> int (nat tp)" using lds kpos by (intro of_nat_mono) linarith
    then have ldi: "int (length ds) + ts \<le> tp" using kts ts by simp
    have le1: "total_digits_count ?zero + int (length ds) \<le> tp" using ldi ts(1) by simp
    let ?st1 = "\<lparr>found_value = True, found_dot = 0, digits_after_dot_count = 0,
        total_digits_count = int (length ds), first_truncated_digit = 0, dec_value = int I\<rparr>"
    have l1: "decimal_loop tp round ?zero (ds @ rest) = decimal_loop tp round ?st1 rest" for rest
      unfolding decimal_loop_digits [OF dsd(1) le1]
      using dsd(2) by (simp add: ds_def [symmetric] accumulate_nat_digits [of I, folded ds_def])
    show ?thesis
    proof (cases "ts > 0")
      case False
      then have k0: "k = 0" "ts = 0" using ts(1) by (simp_all add: k_def)
      have aI: "a = int I" using iI k0 by simp
      have "decimal_loop tp round ?zero body = Inr (?st1, 0)"
        using l1 [of "[]"] False by (simp add: body_def frac_def)
      moreover have "decimal_finish tp ts round (v < 0) ?st1 0 =
          (if v < 0 then - dec_value ?st1 else dec_value ?st1, PARSE_SUCCESS)"
        using ts ldi k0 by (intro finish_exact_scale [of "int (length ds)"]) simp_all
      ultimately have "StringToDecimal (sg @ body) tp ts round =
          (if v < 0 then - a else a, PARSE_SUCCESS)"
        unfolding StringToDecimal_def decimal_scan_def p by (simp add: aI)
      then show ?thesis unfolding r using va by simp
    next
      case pos: True
      let ?st2 = "?st1\<lparr>found_dot := 1\<rparr>"
      let ?st3 = "?st2\<lparr>found_value := found_value ?st2 \<or> fs \<noteq> [],
           dec_value := accumulate 10 (dec_value ?st2) fs,
           total_digits_count := total_digits_count ?st2 + int (length fs),
           digits_after_dot_count :=
             digits_after_dot_count ?st2 + found_dot ?st2 * int (length fs)\<rparr>"
      have le3: "total_digits_count ?st2 + int (length fs) \<le> tp"
        using ldi kts fsd(2) by simp
      have "decimal_loop tp round ?zero body = decimal_loop tp round ?st1 (CHR ''.'' # fs)"
        using l1 [of "CHR ''.'' # fs"] pos by (simp add: body_def frac_def)
      also have "\<dots> = decimal_loop tp round ?st2 fs"
        by (rule decimal_loop_dot) simp
      also have "\<dots> = decimal_loop tp round ?st3 []"
        using decimal_loop_digits [OF fsd(1) le3, of round "[]"] by simp
      finally have l: "decimal_loop tp round ?zero body = Inr (?st3, 0)" by simp
      have val: "dec_value ?st3 = a" using accF [of "int I"] aIF by simp
      have f: "decimal_finish tp ts round (v < 0) ?st3 0 =
          (if v < 0 then - dec_value ?st3 else dec_value ?st3, PARSE_SUCCESS)"
        using ts ldi kts fsd(2)
        by (intro finish_exact_scale [of "int (length ds) + ts"]) simp_all
      have "StringToDecimal (sg @ body) tp ts round = (if v < 0 then - a else a, PARSE_SUCCESS)"
        unfolding StringToDecimal_def decimal_scan_def p using l f val by simp
      then show ?thesis unfolding r using va by simp
    qed
  qed
qed

subsection \<open>Parsing the rendering of a parsed value again\<close>

text \<open>
  Claim C9. For every input, precision, scale and rounding flag: when the decimal parser
  returns \<open>Success\<close> with raw value \<open>v\<close>, it returns \<open>Success\<close> with the same raw value on the
  canonical rendering of \<open>v\<close> (sign, integer part, and exactly \<open>type_scale\<close> fractional
  digits), with the same precision, scale and flag.
\<close>

theorem reparse_canonical_rendering:
  assumes "StringToDecimal s type_precision type_scale round = (v, PARSE_SUCCESS)"
  shows "StringToDecimal (canonical_rendering v type_scale) type_precision type_scale round
           = (v, PARSE_SUCCESS)"
  using success_bounds [OF assms] by (intro parse_canonical_rendering) simp_all

theorem reparse_canonical_rendering_witness:
  "StringToDecimal '' +001.50e1 '' 5 2 True = (1500, PARSE_SUCCESS)
   \<and> canonical_rendering 1500 2 = ''15.00''
   \<and> StringToDecimal ''15.00'' 5 2 True = (1500, PARSE_SUCCESS)
   \<and> StringToDecimal ''-.05'' 5 2 False = (- 5, PARSE_SUCCESS)
   \<and> canonical_rendering (- 5) 2 = ''-0.05''
   \<and> StringToDecimal ''-0.05'' 5 2 False = (- 5, PARSE_SUCCESS)"
proof -
  have a: "StringToDecimal '' +001.50e1 '' 5 2 True = (1500, PARSE_SUCCESS)" by code_simp
  have b: "canonical_rendering 1500 2 = ''15.00''" by code_simp
  have c: "StringToDecimal ''-.05'' 5 2 False = (- 5, PARSE_SUCCESS)" by code_simp
  have d: "canonical_rendering (- 5) 2 = ''-0.05''" by code_simp
  show ?thesis
    using reparse_canonical_rendering [OF a] reparse_canonical_rendering [OF c] a c
    unfolding b d by simp
qed

subsection \<open>A float beyond its range\<close>

text \<open>
  Claim C8 has every accumulation that ends in an infinity of the target width
  classified as \<open>Overflow\<close>. For \<open>float\<close> the code does not do so: the literal of
  \<open>10 ^ 39\<close>, forty digits, is beyond the finite range of \<open>float\<close> and within that of
  \<open>double\<close>; the \<open>double\<close> accumulator stays finite, the status is \<open>Success\<close>, and the
  value returned after the conversion to \<open>float\<close> is the positive infinity.
\<close>

theorem float_overflow_not_classified:
  "StringToFloat Float ''1000000000000000000000000000000000000000''
     = Some (Infinity False, PARSE_SUCCESS)"
  by code_simp

end
